theory Spec2Isabelle
  imports
    Main
    "HOL-Library.Multiset"
    "HOL-Library.Char_ord"
    "HOL-Library.List_Lexorder"
    "HOL-Library.Log_Nat"
begin

section \<open>Employee data analysis system: a shallow embedding of employee\_system.py\<close>

text \<open>
  Conventions of the embedding.
  \<^item> A Python \<open>str\<close> is a \<open>string\<close>; one \<open>char\<close> stands for one character of the
    Python string.
  \<^item> A Python \<open>int\<close> is an \<open>int\<close>.
  \<^item> A Python \<open>float\<close> is the rational number it denotes (\<open>rat\<close>), and every float
    operation rounds its exact result to the nearest double (\<open>fl\<close>). The values \<open>nan\<close>
    and \<open>inf\<close>, the negative zero, and results beyond the largest double have no
    counterpart here.
  \<^item> The fields \<open>salary\<close> and \<open>performance_score\<close> are floats, as
    \<open>Employee.__init__\<close> declares them. The generator stores an int in \<open>salary\<close>; the
    record holds its value.
  \<^item> An exception is a value of \<open>py_error\<close>; a function that may raise returns
    \<open>py_error + 'a\<close> with \<open>Inl\<close> for the exception.
  \<^item> A \<open>dict\<close> is an association list in insertion order with distinct keys.
\<close>

subsection \<open>Exceptions\<close>

datatype py_error =
  ZeroDivisionError | KeyError | IndexError | ValueError | TypeError | CsvError

definition bind :: "py_error + 'a \<Rightarrow> ('a \<Rightarrow> py_error + 'b) \<Rightarrow> py_error + 'b" where
  "bind m f = (case m of Inl e \<Rightarrow> Inl e | Inr v \<Rightarrow> f v)"

text \<open>A \<open>for\<close> loop whose body updates the loop state and may raise.\<close>

fun for_each :: "('s \<Rightarrow> 'a \<Rightarrow> py_error + 's) \<Rightarrow> 's \<Rightarrow> 'a list \<Rightarrow> py_error + 's" where
  "for_each body s [] = Inr s"
| "for_each body s (x # xs) = bind (body s x) (\<lambda>s'. for_each body s' xs)"

subsection \<open>Floats\<close>

text \<open>Rounding to the nearest integer, ties to the even one.\<close>

definition round_half_even :: "rat \<Rightarrow> int" where
  "round_half_even x =
     (let f = \<lfloor>x\<rfloor>; r = x - of_int f
      in if r < 1 / 2 then f else if 1 / 2 < r then f + 1 else if even f then f else f + 1)"

definition pow2 :: "int \<Rightarrow> rat" where
  "pow2 k = (if 0 \<le> k then 2 ^ nat k else 1 / 2 ^ nat (- k))"

text \<open>The number of binary digits of a positive integer.\<close>

function bit_length :: "int \<Rightarrow> int" where
  "bit_length n = (if n \<le> 0 then 0 else 1 + bit_length (n div 2))"
  by pat_completeness auto
termination
  by (relation "measure nat") auto

declare bit_length.simps [simp del]

text \<open>The binary exponent of a positive number: \<open>pow2 (ilog2 x) \<le> x < pow2 (ilog2 x + 1)\<close>.\<close>

definition ilog2 :: "rat \<Rightarrow> int" where
  "ilog2 x =
     (if 1 \<le> x then bit_length \<lfloor>x\<rfloor> - 1 else - bit_length (\<lceil>1 / x\<rceil> - 1))"

text \<open>
  The double nearest to \<open>x\<close> (IEEE 754 binary64, round to nearest, ties to even): 53
  significant bits, and the spacing \<open>2\<^sup>-\<^sup>1\<^sup>0\<^sup>7\<^sup>4\<close> of the subnormal numbers at the least.
\<close>

definition ulp_exp :: "rat \<Rightarrow> int" where
  "ulp_exp x = max (ilog2 \<bar>x\<bar> - 52) (- 1074)"

definition fl :: "rat \<Rightarrow> rat" where
  "fl x =
     (if x = 0 then 0
      else sgn x * of_int (round_half_even (\<bar>x\<bar> / pow2 (ulp_exp x))) * pow2 (ulp_exp x))"

text \<open>The doubles: 53 significant bits and an exponent of at least -1074.\<close>

definition is_double :: "rat \<Rightarrow> bool" where
  "is_double y \<longleftrightarrow> (\<exists>m e. y = of_int m * pow2 e \<and> \<bar>m\<bar> < 2 ^ 53 \<and> - 1074 \<le> e)"

text \<open>\<open>float(i)\<close> of an int, and the float operations \<open>+\<close> and \<open>*\<close>.\<close>

definition float_of_int :: "int \<Rightarrow> rat" where
  "float_of_int i = fl (of_int i)"

definition fadd :: "rat \<Rightarrow> rat \<Rightarrow> rat" where
  "fadd a b = fl (a + b)"

definition fmul :: "rat \<Rightarrow> rat \<Rightarrow> rat" where
  "fmul a b = fl (a * b)"

text \<open>\<open>a / b\<close> of two floats.\<close>

definition py_truediv :: "rat \<Rightarrow> rat \<Rightarrow> py_error + rat" where
  "py_truediv a b = (if b = 0 then Inl ZeroDivisionError else Inr (fl (a / b)))"

text \<open>\<open>a / b\<close> of two ints: the quotient of the integers, rounded once.\<close>

definition py_truediv_int :: "int \<Rightarrow> int \<Rightarrow> py_error + rat" where
  "py_truediv_int a b =
     (if b = 0 then Inl ZeroDivisionError else Inr (fl (of_int a / of_int b)))"

text \<open>\<open>int(x)\<close> of a float: truncation towards zero.\<close>

definition py_int :: "rat \<Rightarrow> int" where
  "py_int x = (if 0 \<le> x then \<lfloor>x\<rfloor> else \<lceil>x\<rceil>)"

subsection \<open>Dictionaries\<close>

text \<open>\<open>k in d\<close>, \<open>d[k]\<close> (which raises \<open>KeyError\<close> for a missing key) and \<open>d[k] = v\<close>
  (which keeps the place of a key that is present and appends a new key).\<close>

definition dict_contains :: "('k \<times> 'v) list \<Rightarrow> 'k \<Rightarrow> bool" where
  "dict_contains d k \<longleftrightarrow> k \<in> set (map fst d)"

definition dict_get :: "('k \<times> 'v) list \<Rightarrow> 'k \<Rightarrow> py_error + 'v" where
  "dict_get d k = (case map_of d k of None \<Rightarrow> Inl KeyError | Some v \<Rightarrow> Inr v)"

fun dict_set :: "('k \<times> 'v) list \<Rightarrow> 'k \<Rightarrow> 'v \<Rightarrow> ('k \<times> 'v) list" where
  "dict_set [] k v = [(k, v)]"
| "dict_set ((k', v') # d) k v =
     (if k' = k then (k, v) # d else (k', v') # dict_set d k v)"

text \<open>\<open>d[k] = f(d[k])\<close>, as in \<open>d[k] += 1\<close>.\<close>

definition dict_modify :: "('k \<times> 'v) list \<Rightarrow> 'k \<Rightarrow> ('v \<Rightarrow> 'v) \<Rightarrow> py_error + ('k \<times> 'v) list" where
  "dict_modify d k f = bind (dict_get d k) (\<lambda>v. Inr (dict_set d k (f v)))"

subsection \<open>class Employee\<close>

record employee =
  emp_id :: string
  name :: string
  department :: string
  salary :: rat
  joining_date :: string
  performance_score :: rat

text \<open>The constructor, with the arguments in the order of \<open>__init__\<close>.\<close>

definition Employee :: "string \<Rightarrow> string \<Rightarrow> string \<Rightarrow> rat \<Rightarrow> string \<Rightarrow> rat \<Rightarrow> employee" where
  "Employee i n d s j p =
     \<lparr>emp_id = i, name = n, department = d, salary = s, joining_date = j,
      performance_score = p\<rparr>"

subsection \<open>Built-ins: formatting integers\<close>

text \<open>The decimal digits of a non-negative int, as \<open>str\<close> writes them.\<close>

definition digit_char :: "int \<Rightarrow> char" where
  "digit_char d = ''0123456789'' ! nat d"

function digits :: "int \<Rightarrow> string" where
  "digits n = (if n < 10 then [digit_char n] else digits (n div 10) @ [digit_char (n mod 10)])"
  by pat_completeness auto
termination
  by (relation "measure nat") auto

declare digits.simps [simp del]

text \<open>
  The format specifications \<open>0wd\<close> (zero padded to the width \<open>w\<close>, the sign first) and
  \<open>wd\<close> (right aligned in the width \<open>w\<close>) of an int. A number with more digits than the
  width is written in full.
\<close>

definition format_int_zero_pad :: "nat \<Rightarrow> int \<Rightarrow> string" where
  "format_int_zero_pad w i =
     (if i < 0
      then ''-'' @ replicate (w - 1 - length (digits (- i))) CHR ''0'' @ digits (- i)
      else replicate (w - length (digits i)) CHR ''0'' @ digits i)"

definition format_int_width :: "nat \<Rightarrow> int \<Rightarrow> string" where
  "format_int_width w i =
     (let s = (if i < 0 then ''-'' @ digits (- i) else digits i)
      in replicate (w - length s) CHR '' '' @ s)"

text \<open>The format specification \<open>ws\<close> of a string: left aligned in the width \<open>w\<close>.\<close>

definition format_str_width :: "nat \<Rightarrow> string \<Rightarrow> string" where
  "format_str_width w s = s @ replicate (w - length s) CHR '' ''"

subsection \<open>Built-ins: formatting floats, joining and repeating strings\<close>

text \<open>The thousands separators of the format option \<open>,\<close> in a string of digits.\<close>

function group_thousands :: "string \<Rightarrow> string" where
  "group_thousands s =
     (if length s \<le> 3 then s
      else group_thousands (take (length s - 3) s) @ '','' @ drop (length s - 3) s)"
  by pat_completeness auto
termination
  by (relation "measure length") auto

declare group_thousands.simps [simp del]

text \<open>
  The format specifications \<open>.pf\<close> and \<open>,.pf\<close> of a float: the decimal number of \<open>p\<close>
  places nearest to the value (ties to even), in fixed-point notation.
\<close>

definition format_float :: "bool \<Rightarrow> nat \<Rightarrow> rat \<Rightarrow> string" where
  "format_float comma p x =
     (let n = round_half_even (\<bar>x\<bar> * 10 ^ p);
          int_part = digits (n div 10 ^ p);
          frac_part = digits (n mod 10 ^ p)
      in (if x < 0 then ''-'' else [])
         @ (if comma then group_thousands int_part else int_part)
         @ (if p = 0 then []
            else ''.'' @ replicate (p - length frac_part) CHR ''0'' @ frac_part))"

text \<open>The format specification \<open>w.pf\<close>: the same, right aligned in the width \<open>w\<close>.\<close>

definition format_float_width :: "nat \<Rightarrow> nat \<Rightarrow> rat \<Rightarrow> string" where
  "format_float_width w p x =
     (let s = format_float False p x in replicate (w - length s) CHR '' '' @ s)"

text \<open>\<open>sep.join(xs)\<close>.\<close>

fun join :: "string \<Rightarrow> string list \<Rightarrow> string" where
  "join sep [] = []"
| "join sep [x] = x"
| "join sep (x # y # ys) = x @ sep @ join sep (y # ys)"

text \<open>\<open>s * k\<close> for a string of one character: the empty string for a negative \<open>k\<close>.\<close>

definition str_repeat :: "char \<Rightarrow> int \<Rightarrow> string" where
  "str_repeat c k = replicate (nat k) c"

text \<open>
  The character U+2588 (full block) of the bar. It is one character of a Python string
  and one \<open>char\<close> here.
\<close>

definition full_block :: char where
  "full_block = CHR 0xDB"

definition newline :: char where
  "newline = CHR 0x0A"

subsection \<open>Built-ins: \<open>sum\<close>, \<open>min\<close>, \<open>max\<close> and indexing\<close>

text \<open>
  \<open>sum(xs)\<close> of floats: they are added from the left, starting from the int 0, each
  addition rounded. (CPython from 3.12 on compensates the rounding errors of the sum; no
  property below depends on the value of a sum.)
\<close>

definition py_sum :: "rat list \<Rightarrow> rat" where
  "py_sum xs = foldl fadd 0 xs"

text \<open>\<open>min(xs)\<close> and \<open>max(xs)\<close>, which raise \<open>ValueError\<close> for an empty sequence.\<close>

definition py_min :: "rat list \<Rightarrow> py_error + rat" where
  "py_min xs = (case xs of [] \<Rightarrow> Inl ValueError | x # ys \<Rightarrow> Inr (foldl min x ys))"

definition py_max :: "rat list \<Rightarrow> py_error + rat" where
  "py_max xs = (case xs of [] \<Rightarrow> Inl ValueError | x # ys \<Rightarrow> Inr (foldl max x ys))"

text \<open>\<open>xs[i]\<close>: a negative index counts from the end; outside the list it raises.\<close>

definition py_index :: "'a list \<Rightarrow> int \<Rightarrow> py_error + 'a" where
  "py_index xs i =
     (let len = int (length xs); j = (if i < 0 then len + i else i)
      in if 0 \<le> j \<and> j < len then Inr (xs ! nat j) else Inl IndexError)"

subsection \<open>Built-ins: \<open>round\<close>, and the module \<open>random\<close>\<close>

text \<open>
  \<open>round(x, ndigits)\<close> of a float: the decimal number of \<open>ndigits\<close> places nearest to
  \<open>x\<close> (ties to even), and of that the nearest double.
\<close>

definition py_round :: "rat \<Rightarrow> nat \<Rightarrow> rat" where
  "py_round x ndigits = fl (of_int (round_half_even (x * 10 ^ ndigits)) / 10 ^ ndigits)"

text \<open>
  The random source is an input of the model. One iteration of the generator draws six
  values: the indices that the three calls of \<open>random.choice\<close> pick
  (\<open>choice(seq)\<close> is \<open>seq[i]\<close> for a drawn index \<open>i\<close>), the results of the two calls of
  \<open>random.randint\<close>, and the result of \<open>random.uniform\<close>.
\<close>

record draws =
  choice_first :: nat
  choice_last :: nat
  choice_dept :: nat
  randint_variation :: int
  randint_days :: int
  uniform_score :: rat

definition random_choice :: "'a list \<Rightarrow> nat \<Rightarrow> py_error + 'a" where
  "random_choice seq i = (if i < length seq then Inr (seq ! i) else Inl IndexError)"

subsection \<open>Built-ins: \<open>sorted\<close> and slicing\<close>

text \<open>
  \<open>sorted(xs, key=key, reverse=reverse)\<close>. The sort of CPython is stable, and a stable
  sort has one result, that of the insertion sort \<open>sort_key\<close>. With \<open>reverse=True\<close>
  CPython reverses the list, sorts it and reverses the result, so that elements with
  equal keys keep the order they had.
\<close>

definition py_sorted :: "('a \<Rightarrow> 'k::linorder) \<Rightarrow> bool \<Rightarrow> 'a list \<Rightarrow> 'a list" where
  "py_sorted key reverse xs =
     (if reverse then rev (sort_key key (rev xs)) else sort_key key xs)"

text \<open>\<open>xs[:n]\<close>: a negative stop counts from the end, and every stop is clipped to the list.\<close>

definition py_slice_to :: "'a list \<Rightarrow> int \<Rightarrow> 'a list" where
  "py_slice_to xs n =
     (let len = int (length xs);
          stop = (if n < 0 then max (len + n) 0 else min n len)
      in take (nat stop) xs)"

subsection \<open>class EmployeeDataGenerator\<close>

definition DEPARTMENTS :: "string list" where
  "DEPARTMENTS = [''Engineering'', ''Sales'', ''Marketing'', ''HR'', ''Finance'']"

definition FIRST_NAMES :: "string list" where
  "FIRST_NAMES =
     [''Ahmed'', ''Fatima'', ''Mohammad'', ''Ayesha'', ''Karim'',
      ''Nadia'', ''Rahim'', ''Zara'', ''Ali'', ''Samira'',
      ''Hassan'', ''Laila'', ''Omar'', ''Sara'', ''Tariq'',
      ''Amina'', ''Bilal'', ''Huda'', ''Ibrahim'', ''Maryam'']"

definition LAST_NAMES :: "string list" where
  "LAST_NAMES =
     [''Khan'', ''Ahmed'', ''Rahman'', ''Hassan'', ''Ali'',
      ''Mahmud'', ''Hossain'', ''Islam'', ''Chowdhury'', ''Akter'',
      ''Siddiqui'', ''Malik'', ''Sheikh'', ''Hussain'', ''Begum'']"

definition base_salaries :: "(string \<times> int) list" where
  "base_salaries =
     [(''Engineering'', 80000), (''Sales'', 60000), (''Marketing'', 55000),
      (''HR'', 50000), (''Finance'', 70000)]"

text \<open>
  The body of the loop of \<open>generate_employees\<close> for the index \<open>i\<close> and the draws \<open>dr\<close>.
  \<open>date_str days_ago\<close> stands for
  \<open>(datetime.now() - timedelta(days=days_ago)).strftime('%Y-%m-%d')\<close>. The salary is an
  int, stored in the field as it is.
\<close>

definition generate_employee :: "(int \<Rightarrow> string) \<Rightarrow> draws \<Rightarrow> int \<Rightarrow> py_error + employee" where
  "generate_employee date_str dr i =
     (let emp_id = ''EMP'' @ format_int_zero_pad 4 i in
      bind (random_choice FIRST_NAMES (choice_first dr)) (\<lambda>first_name.
      bind (random_choice LAST_NAMES (choice_last dr)) (\<lambda>last_name.
      let name = first_name @ '' '' @ last_name in
      bind (random_choice DEPARTMENTS (choice_dept dr)) (\<lambda>department.
      bind (dict_get base_salaries department) (\<lambda>base.
      let variation = randint_variation dr;
          salary = max (base + variation) 30000;
          days_ago = randint_days dr;
          joining_date = date_str days_ago;
          performance_score = py_round (uniform_score dr) 1
      in Inr (Employee emp_id name department (of_int salary) joining_date
                performance_score))))))"

text \<open>\<open>rnd i\<close> are the draws of the iteration with the index \<open>i\<close>.\<close>

definition generate_employees ::
  "(int \<Rightarrow> string) \<Rightarrow> (int \<Rightarrow> draws) \<Rightarrow> int \<Rightarrow> py_error + employee list" where
  "generate_employees date_str rnd num_employees =
     for_each
       (\<lambda>employees i.
          bind (generate_employee date_str (rnd i) i) (\<lambda>employee.
          Inr (employees @ [employee])))
       [] [1..num_employees]"

text \<open>
  What the module \<open>random\<close> promises of its results: an index within the sequence,
  \<open>a \<le> randint(a, b) \<le> b\<close> and \<open>a \<le> uniform(a, b) \<le> b\<close>.
\<close>

definition valid_draws :: "draws \<Rightarrow> bool" where
  "valid_draws dr \<longleftrightarrow>
     choice_first dr < length FIRST_NAMES \<and>
     choice_last dr < length LAST_NAMES \<and>
     choice_dept dr < length DEPARTMENTS \<and>
     - 10000 \<le> randint_variation dr \<and> randint_variation dr \<le> 30000 \<and>
     0 \<le> randint_days dr \<and> randint_days dr \<le> 1825 \<and>
     5 \<le> uniform_score dr \<and> uniform_score dr \<le> 10"

text \<open>The number that a string of decimal digits denotes.\<close>

definition digit_value :: "char \<Rightarrow> nat" where
  "digit_value c = of_char c - 48"

definition decimal_value :: "string \<Rightarrow> nat" where
  "decimal_value s = foldl (\<lambda>a c. 10 * a + digit_value c) 0 s"

subsection \<open>class EmployeeAnalyzer: \<open>get_top_performers\<close>\<close>

definition get_top_performers :: "employee list \<Rightarrow> int \<Rightarrow> employee list" where
  "get_top_performers emps n =
     (let sorted_employees = py_sorted performance_score True emps
      in py_slice_to sorted_employees n)"

text \<open>
  What the specification calls the list sorted by \<open>key\<close> descending with ties in source
  order: a rearrangement of \<open>xs\<close>, descending in \<open>key\<close>, in which the elements of each
  key value stand in the order they have in \<open>xs\<close>.
\<close>

definition stable_desc_sorted :: "('a \<Rightarrow> 'k::linorder) \<Rightarrow> 'a list \<Rightarrow> 'a list \<Rightarrow> bool" where
  "stable_desc_sorted key xs ys \<longleftrightarrow>
     mset ys = mset xs \<and>
     sorted_wrt (\<lambda>a b. key a \<ge> key b) ys \<and>
     (\<forall>k. filter (\<lambda>e. key e = k) ys = filter (\<lambda>e. key e = k) xs)"

subsection \<open>class EmployeeAnalyzer: \<open>get_department_statistics\<close>\<close>

text \<open>
  The inner dictionary of a department. The keys \<open>avg_salary\<close> and \<open>avg_performance\<close>
  are absent (\<open>None\<close>) until the second loop stores them.
\<close>

record dept_stats =
  count' :: int
  total_salary :: rat
  total_performance :: rat
  employees :: "employee list"
  avg_salary :: "rat option"
  avg_performance :: "rat option"

definition new_dept_stats :: dept_stats where
  "new_dept_stats =
     \<lparr>count' = 0, total_salary = 0, total_performance = 0, employees = [],
      avg_salary = None, avg_performance = None\<rparr>"

text \<open>The body of the first loop: one employee is added to the group of its department.\<close>

definition dept_aggregate_step ::
  "(string \<times> dept_stats) list \<Rightarrow> employee \<Rightarrow> py_error + (string \<times> dept_stats) list" where
  "dept_aggregate_step dept_data emp =
     (let dept = department emp;
          dept_data = (if \<not> dict_contains dept_data dept
                       then dict_set dept_data dept new_dept_stats else dept_data)
      in bind (dict_modify dept_data dept (\<lambda>st. st\<lparr>count' := count' st + 1\<rparr>))
        (\<lambda>dept_data.
         bind (dict_modify dept_data dept
                 (\<lambda>st. st\<lparr>total_salary := fadd (total_salary st) (salary emp)\<rparr>))
        (\<lambda>dept_data.
         bind (dict_modify dept_data dept
                 (\<lambda>st. st\<lparr>total_performance :=
                           fadd (total_performance st) (performance_score emp)\<rparr>))
        (\<lambda>dept_data.
         dict_modify dept_data dept (\<lambda>st. st\<lparr>employees := employees st @ [emp]\<rparr>)))))"

text \<open>The body of the second loop: the two averages of one department.\<close>

definition dept_average_step ::
  "(string \<times> dept_stats) list \<Rightarrow> string \<Rightarrow> py_error + (string \<times> dept_stats) list" where
  "dept_average_step dept_data dept =
     bind (dict_get dept_data dept) (\<lambda>st.
     let cnt = count' st in
     bind (py_truediv (total_salary st) (float_of_int cnt)) (\<lambda>a.
     bind (dict_modify dept_data dept (\<lambda>st. st\<lparr>avg_salary := Some a\<rparr>)) (\<lambda>dept_data.
     bind (dict_get dept_data dept) (\<lambda>st.
     bind (py_truediv (total_performance st) (float_of_int cnt)) (\<lambda>p.
     dict_modify dept_data dept (\<lambda>st. st\<lparr>avg_performance := Some p\<rparr>))))))"

definition dept_aggregate :: "employee list \<Rightarrow> py_error + (string \<times> dept_stats) list" where
  "dept_aggregate emps = for_each dept_aggregate_step [] emps"

definition get_department_statistics ::
  "employee list \<Rightarrow> py_error + (string \<times> dept_stats) list" where
  "get_department_statistics emps =
     bind (dept_aggregate emps) (\<lambda>dept_data.
       for_each dept_average_step dept_data (map fst dept_data))"

subsection \<open>class EmployeeAnalyzer: \<open>get_salary_range_distribution\<close>\<close>

definition initial_ranges :: "(string \<times> int) list" where
  "initial_ranges =
     [(''0-50k'', 0), (''50k-70k'', 0), (''70k-90k'', 0), (''90k-100k'', 0), (''100k+'', 0)]"

definition salary_range_step ::
  "(string \<times> int) list \<Rightarrow> employee \<Rightarrow> py_error + (string \<times> int) list" where
  "salary_range_step ranges emp =
     (if salary emp < 50000 then dict_modify ranges ''0-50k'' (\<lambda>c. c + 1)
      else if salary emp < 70000 then dict_modify ranges ''50k-70k'' (\<lambda>c. c + 1)
      else if salary emp < 90000 then dict_modify ranges ''70k-90k'' (\<lambda>c. c + 1)
      else if salary emp < 100000 then dict_modify ranges ''90k-100k'' (\<lambda>c. c + 1)
      else dict_modify ranges ''100k+'' (\<lambda>c. c + 1))"

definition get_salary_range_distribution :: "employee list \<Rightarrow> py_error + (string \<times> int) list" where
  "get_salary_range_distribution emps = for_each salary_range_step initial_ranges emps"

subsection \<open>class EmployeeAnalyzer: \<open>generate_report\<close>\<close>

text \<open>
  The report is built in five parts, in the order of the source. Two values come from
  outside: \<open>now\<close> is \<open>datetime.now().strftime('%Y-%m-%d %H:%M:%S')\<close>, and \<open>float_str x\<close>
  is \<open>str(x)\<close> of a float, the shortest decimal that reads back as \<open>x\<close>.
\<close>

definition header_lines :: "string \<Rightarrow> employee list \<Rightarrow> string list" where
  "header_lines now emps =
     [replicate 80 CHR ''='',
      ''EMPLOYEE DATA ANALYSIS REPORT'',
      replicate 80 CHR ''='',
      ''Generated: '' @ now,
      ''Total Employees Analyzed: '' @ format_int_width 0 (int (length emps)),
      []]"

text \<open>The lines of one department; a missing key of the inner dictionary raises.\<close>

definition department_entry_lines :: "string \<times> dept_stats \<Rightarrow> py_error + string list" where
  "department_entry_lines item =
     (case item of (dept, stats) \<Rightarrow>
        bind (case avg_salary stats of None \<Rightarrow> Inl KeyError | Some a \<Rightarrow> Inr a) (\<lambda>a.
        bind (case avg_performance stats of None \<Rightarrow> Inl KeyError | Some p \<Rightarrow> Inr p) (\<lambda>p.
        Inr [newline # dept @ '':'',
             ''  Number of Employees: '' @ format_int_width 0 (count' stats),
             ''  Average Salary: $'' @ format_float True 2 a,
             ''  Average Performance Score: '' @ format_float False 2 p @ ''/10''])))"

text \<open>
  \<open>sorted(dept_stats.items())\<close> orders the items by their keys: the keys of a dictionary
  are distinct, so the comparison of two items is decided by the department names.
\<close>

definition department_lines :: "employee list \<Rightarrow> py_error + string list" where
  "department_lines emps =
     bind (get_department_statistics emps) (\<lambda>dept_stats.
     bind (for_each (\<lambda>lines item.
                      bind (department_entry_lines item) (\<lambda>ls. Inr (lines @ ls)))
             [''DEPARTMENT STATISTICS:'', replicate 80 CHR ''-'']
             (py_sorted fst False dept_stats)) (\<lambda>lines.
     Inr (lines @ [[]])))"

definition top_performer_line :: "(rat \<Rightarrow> string) \<Rightarrow> int \<times> employee \<Rightarrow> string" where
  "top_performer_line float_str item =
     (case item of (rank, emp) \<Rightarrow>
        format_int_width 2 rank @ ''. '' @ format_str_width 25 (name emp)
        @ '' ('' @ format_str_width 12 (department emp) @ '') - ''
        @ ''Score: '' @ float_str (performance_score emp) @ ''/10'')"

definition top_performer_lines :: "(rat \<Rightarrow> string) \<Rightarrow> employee list \<Rightarrow> string list" where
  "top_performer_lines float_str emps =
     (let top_performers = get_top_performers emps 10
      in [''TOP 10 PERFORMERS:'', replicate 80 CHR ''-'']
         @ map (top_performer_line float_str)
             (zip [1..int (length top_performers)] top_performers)
         @ [[]])"

text \<open>
  One pass of the loop over the salary distribution: the percentage and the bar of a
  bucket, and the line that shows them.
\<close>

definition distribution_row ::
  "employee list \<Rightarrow> string \<times> int \<Rightarrow> py_error + (string \<times> int \<times> rat \<times> string)" where
  "distribution_row emps item =
     (case item of (range_name, cnt) \<Rightarrow>
        bind (py_truediv_int cnt (int (length emps))) (\<lambda>q.
        let percentage = fmul q (float_of_int 100) in
        bind (py_truediv percentage (float_of_int 2)) (\<lambda>h.
        let bar = str_repeat full_block (py_int h) in
        Inr (range_name, cnt, percentage, bar))))"

definition distribution_line :: "string \<times> int \<times> rat \<times> string \<Rightarrow> string" where
  "distribution_line row =
     (case row of (range_name, cnt, percentage, bar) \<Rightarrow>
        format_str_width 12 range_name @ '': '' @ format_int_width 3 cnt
        @ '' employees ('' @ format_float_width 5 1 percentage @ ''%) '' @ bar)"

definition distribution_rows ::
  "employee list \<Rightarrow> py_error + (string \<times> int \<times> rat \<times> string) list" where
  "distribution_rows emps =
     bind (get_salary_range_distribution emps) (\<lambda>salary_dist.
     for_each (\<lambda>rows item. bind (distribution_row emps item) (\<lambda>row. Inr (rows @ [row])))
       [] salary_dist)"

definition distribution_lines :: "employee list \<Rightarrow> py_error + string list" where
  "distribution_lines emps =
     bind (distribution_rows emps) (\<lambda>rows.
     Inr ([''SALARY DISTRIBUTION:'', replicate 80 CHR ''-'']
          @ map distribution_line rows @ [[]]))"

definition overall_lines :: "employee list \<Rightarrow> py_error + string list" where
  "overall_lines emps =
     (let all_salaries = map salary emps;
          all_performances = map performance_score emps
      in bind (py_truediv (py_sum all_salaries) (float_of_int (int (length all_salaries))))
           (\<lambda>mean_salary.
         bind (py_index (py_sorted (\<lambda>x. x) False all_salaries)
                 (int (length all_salaries) div 2)) (\<lambda>median_salary.
         bind (py_min all_salaries) (\<lambda>min_salary.
         bind (py_max all_salaries) (\<lambda>max_salary.
         bind (py_truediv (py_sum all_performances)
                 (float_of_int (int (length all_performances)))) (\<lambda>mean_performance.
         Inr [''OVERALL STATISTICS:'', replicate 80 CHR ''-'',
              ''Average Salary (All Departments): $'' @ format_float True 2 mean_salary,
              ''Median Salary: $'' @ format_float True 2 median_salary,
              ''Salary Range: $'' @ format_float True 2 min_salary
                @ '' - $'' @ format_float True 2 max_salary,
              ''Average Performance Score: '' @ format_float False 2 mean_performance
                @ ''/10'',
              [],
              replicate 80 CHR ''='',
              ''End of Report'',
              replicate 80 CHR ''='']))))))"

definition report_lines ::
  "string \<Rightarrow> (rat \<Rightarrow> string) \<Rightarrow> employee list \<Rightarrow> py_error + string list" where
  "report_lines now float_str emps =
     bind (department_lines emps) (\<lambda>dept.
     bind (distribution_lines emps) (\<lambda>dist.
     bind (overall_lines emps) (\<lambda>overall.
     Inr (header_lines now emps @ dept @ top_performer_lines float_str emps
          @ dist @ overall))))"

definition generate_report ::
  "string \<Rightarrow> (rat \<Rightarrow> string) \<Rightarrow> employee list \<Rightarrow> py_error + string" where
  "generate_report now float_str emps =
     bind (report_lines now float_str emps) (\<lambda>lines. Inr (join [newline] lines))"

subsection \<open>Text files and the module \<open>csv\<close>\<close>

text \<open>
  The content of a text file is a string. \<open>save_to_csv\<close> opens its file with
  \<open>newline=''\<close>, which writes the text as it is. \<open>load_from_csv\<close> opens its file without
  that argument: reading then translates every \<open>\r\n\<close> and every other \<open>\r\<close> to \<open>\n\<close>
  (universal newlines). Iterating over the file gives its lines, each with its \<open>\n\<close>.
\<close>

definition carriage_return :: char where
  "carriage_return = CHR 0x0D"

definition dquote :: char where
  "dquote = CHR 0x22"

fun universal_newlines :: "string \<Rightarrow> string" where
  "universal_newlines [] = []"
| "universal_newlines [c] = [if c = carriage_return then newline else c]"
| "universal_newlines (c # d # cs) =
     (if c = carriage_return \<and> d = newline then newline # universal_newlines cs
      else if c = carriage_return then newline # universal_newlines (d # cs)
      else c # universal_newlines (d # cs))"

fun lines_from :: "string \<Rightarrow> string \<Rightarrow> string list" where
  "lines_from line [] = (if line = [] then [] else [line])"
| "lines_from line (c # cs) =
     (if c = newline then (line @ [c]) # lines_from [] cs else lines_from (line @ [c]) cs)"

definition file_lines :: "string \<Rightarrow> string list" where
  "file_lines content = lines_from [] content"

text \<open>
  The writer of the dialect \<open>excel\<close>: a field is quoted when it holds the delimiter, the
  quote character or a character of the line terminator \<open>\r\n\<close>; a quote inside is
  doubled; a row ends with \<open>\r\n\<close>. A row of one empty field is written as two quotes.
\<close>

definition csv_needs_quotes :: "string \<Rightarrow> bool" where
  "csv_needs_quotes s \<longleftrightarrow>
     list_ex (\<lambda>c. c = CHR '','' \<or> c = dquote \<or> c = carriage_return \<or> c = newline) s"

definition csv_field :: "string \<Rightarrow> string" where
  "csv_field s =
     (if csv_needs_quotes s
      then [dquote] @ concat (map (\<lambda>c. if c = dquote then [dquote, dquote] else [c]) s)
           @ [dquote]
      else s)"

definition csv_writerow :: "string list \<Rightarrow> string" where
  "csv_writerow row =
     (if row = [[]] then [dquote, dquote] else join '','' (map csv_field row))
     @ [carriage_return, newline]"

text \<open>
  The reader of the dialect \<open>excel\<close> (no escape character, double quotes, not strict):
  the state machine of \<open>parse_process_char\<close>, fed the characters of a line and then the
  end of the line.
\<close>

datatype parser_state =
  START_RECORD | START_FIELD | IN_FIELD | IN_QUOTED_FIELD | QUOTE_IN_QUOTED_FIELD | EAT_CRNL

datatype csv_char = Ch char | EOL

record reader =
  state :: parser_state
  rec_fields :: "string list"
  field :: string

definition parse_reset :: reader where
  "parse_reset = \<lparr>state = START_RECORD, rec_fields = [], field = []\<rparr>"

definition parse_save_field :: "reader \<Rightarrow> reader" where
  "parse_save_field r = r\<lparr>rec_fields := rec_fields r @ [field r], field := []\<rparr>"

definition parse_add_char :: "reader \<Rightarrow> char \<Rightarrow> reader" where
  "parse_add_char r c = r\<lparr>field := field r @ [c]\<rparr>"

definition is_line_end :: "csv_char \<Rightarrow> bool" where
  "is_line_end c \<longleftrightarrow> c = Ch newline \<or> c = Ch carriage_return"

definition start_field :: "reader \<Rightarrow> csv_char \<Rightarrow> py_error + reader" where
  "start_field r c =
     (if is_line_end c \<or> c = EOL
      then Inr ((parse_save_field r)\<lparr>state := (if c = EOL then START_RECORD else EAT_CRNL)\<rparr>)
      else if c = Ch dquote then Inr (r\<lparr>state := IN_QUOTED_FIELD\<rparr>)
      else if c = Ch (CHR '','') then Inr (parse_save_field r)
      else (case c of Ch x \<Rightarrow> Inr ((parse_add_char r x)\<lparr>state := IN_FIELD\<rparr>)
                    | EOL \<Rightarrow> Inr r))"

definition parse_process_char :: "reader \<Rightarrow> csv_char \<Rightarrow> py_error + reader" where
  "parse_process_char r c =
     (case state r of
        START_RECORD \<Rightarrow>
          if c = EOL then Inr r
          else if is_line_end c then Inr (r\<lparr>state := EAT_CRNL\<rparr>)
          else start_field (r\<lparr>state := START_FIELD\<rparr>) c
      | START_FIELD \<Rightarrow> start_field r c
      | IN_FIELD \<Rightarrow>
          if is_line_end c \<or> c = EOL
          then Inr ((parse_save_field r)
                      \<lparr>state := (if c = EOL then START_RECORD else EAT_CRNL)\<rparr>)
          else if c = Ch (CHR '','') then Inr ((parse_save_field r)\<lparr>state := START_FIELD\<rparr>)
          else (case c of Ch x \<Rightarrow> Inr (parse_add_char r x) | EOL \<Rightarrow> Inr r)
      | IN_QUOTED_FIELD \<Rightarrow>
          if c = EOL then Inr r
          else if c = Ch dquote then Inr (r\<lparr>state := QUOTE_IN_QUOTED_FIELD\<rparr>)
          else (case c of Ch x \<Rightarrow> Inr (parse_add_char r x) | EOL \<Rightarrow> Inr r)
      | QUOTE_IN_QUOTED_FIELD \<Rightarrow>
          if c = Ch dquote then Inr ((parse_add_char r dquote)\<lparr>state := IN_QUOTED_FIELD\<rparr>)
          else if c = Ch (CHR '','') then Inr ((parse_save_field r)\<lparr>state := START_FIELD\<rparr>)
          else if is_line_end c \<or> c = EOL
          then Inr ((parse_save_field r)
                      \<lparr>state := (if c = EOL then START_RECORD else EAT_CRNL)\<rparr>)
          else (case c of Ch x \<Rightarrow> Inr ((parse_add_char r x)\<lparr>state := IN_FIELD\<rparr>)
                        | EOL \<Rightarrow> Inr r)
      | EAT_CRNL \<Rightarrow>
          if is_line_end c then Inr r
          else if c = EOL then Inr (r\<lparr>state := START_RECORD\<rparr>)
          else Inl CsvError)"

text \<open>
  The rows of the reader, handed one by one to \<open>on_row\<close> as the loop that consumes them
  takes them. A row is complete when the end of a line leaves the state
  \<open>START_RECORD\<close>; at the end of the input a pending field or an open quote gives a last
  row.
\<close>

fun reader_rows ::
  "('a \<Rightarrow> string list \<Rightarrow> py_error + 'a) \<Rightarrow> reader \<Rightarrow> 'a \<Rightarrow> string list \<Rightarrow> py_error + 'a" where
  "reader_rows on_row r acc [] =
     (if field r \<noteq> [] \<or> state r = IN_QUOTED_FIELD
      then on_row acc (rec_fields (parse_save_field r)) else Inr acc)"
| "reader_rows on_row r acc (line # rest) =
     bind (for_each parse_process_char r (map Ch line)) (\<lambda>r.
     bind (parse_process_char r EOL) (\<lambda>r.
     if state r = START_RECORD
     then bind (on_row acc (rec_fields r)) (\<lambda>acc. reader_rows on_row parse_reset acc rest)
     else reader_rows on_row r acc rest))"

text \<open>
  \<open>DictReader\<close>: the first row gives the field names; an empty row is skipped; a row is
  zipped with the field names, and the names beyond a short row get \<open>None\<close>.
\<close>

definition dict_row :: "string list \<Rightarrow> string list \<Rightarrow> (string \<times> string option) list" where
  "dict_row fieldnames row =
     (let d = foldl (\<lambda>d (k, v). dict_set d k (Some v)) [] (zip fieldnames row)
      in foldl (\<lambda>d k. dict_set d k None) d (drop (length row) fieldnames))"

text \<open>\<open>float(v)\<close> of a value of a row: \<open>None\<close> raises \<open>TypeError\<close>; \<open>float_of_str\<close> is
  \<open>float\<close> on strings, which raises \<open>ValueError\<close> for a string that is no number.\<close>

definition py_float :: "(string \<Rightarrow> py_error + rat) \<Rightarrow> string option \<Rightarrow> py_error + rat" where
  "py_float float_of_str v = (case v of None \<Rightarrow> Inl TypeError | Some s \<Rightarrow> float_of_str s)"

subsection \<open>class FileManager\<close>

text \<open>
  \<open>Employee.to_dict\<close> and \<open>save_to_csv\<close>: the header and one row for each employee, the
  rec_fields in the order of \<open>fieldnames\<close>. The writer writes a float as \<open>str\<close> does
  (\<open>str_of_float\<close>). The result is the content of the file.
\<close>

datatype py_value = PyStr string | PyFloat rat

definition to_dict :: "employee \<Rightarrow> (string \<times> py_value) list" where
  "to_dict e =
     [(''emp_id'', PyStr (emp_id e)),
      (''name'', PyStr (name e)),
      (''department'', PyStr (department e)),
      (''salary'', PyFloat (salary e)),
      (''joining_date'', PyStr (joining_date e)),
      (''performance_score'', PyFloat (performance_score e))]"

definition fieldnames :: "string list" where
  "fieldnames =
     [''emp_id'', ''name'', ''department'', ''salary'', ''joining_date'', ''performance_score'']"

definition cell_text :: "(rat \<Rightarrow> string) \<Rightarrow> py_value option \<Rightarrow> string" where
  "cell_text str_of_float v =
     (case v of None \<Rightarrow> [] | Some (PyStr s) \<Rightarrow> s | Some (PyFloat x) \<Rightarrow> str_of_float x)"

definition dict_writerow :: "(rat \<Rightarrow> string) \<Rightarrow> (string \<times> py_value) list \<Rightarrow> string" where
  "dict_writerow str_of_float rowdict =
     csv_writerow (map (\<lambda>key. cell_text str_of_float (map_of rowdict key)) fieldnames)"

definition save_to_csv :: "(rat \<Rightarrow> string) \<Rightarrow> employee list \<Rightarrow> string" where
  "save_to_csv str_of_float emps =
     csv_writerow fieldnames @ concat (map (\<lambda>emp. dict_writerow str_of_float (to_dict emp)) emps)"

text \<open>
  The body of the loop of \<open>load_from_csv\<close> for one row. Where a string field of the row
  is \<open>None\<close>, Python stores \<open>None\<close> in the record; the record of this model has no such
  value, and the case is given as \<open>TypeError\<close>.
\<close>

definition load_row ::
  "(string \<Rightarrow> py_error + rat) \<Rightarrow> (string \<times> string option) list \<Rightarrow> py_error + employee" where
  "load_row float_of_str row =
     bind (dict_get row ''emp_id'') (\<lambda>emp_id.
     bind (dict_get row ''name'') (\<lambda>name.
     bind (dict_get row ''department'') (\<lambda>department.
     bind (dict_get row ''salary'') (\<lambda>salary_text.
     bind (py_float float_of_str salary_text) (\<lambda>salary.
     bind (dict_get row ''joining_date'') (\<lambda>joining_date.
     bind (dict_get row ''performance_score'') (\<lambda>performance_text.
     bind (py_float float_of_str performance_text) (\<lambda>performance_score.
     (case (emp_id, name, department, joining_date) of
        (Some i, Some n, Some d, Some j) \<Rightarrow>
          Inr (Employee i n d salary j performance_score)
      | _ \<Rightarrow> Inl TypeError)))))))))"

definition dict_reader_row ::
  "(string \<Rightarrow> py_error + rat) \<Rightarrow> string list option \<times> employee list \<Rightarrow> string list
     \<Rightarrow> py_error + (string list option \<times> employee list)" where
  "dict_reader_row float_of_str acc row =
     (case acc of
        (None, emps) \<Rightarrow> Inr (Some row, emps)
      | (Some names, emps) \<Rightarrow>
          if row = [] then Inr acc
          else bind (load_row float_of_str (dict_row names row)) (\<lambda>employee.
               Inr (Some names, emps @ [employee])))"

definition load_from_csv :: "(string \<Rightarrow> py_error + rat) \<Rightarrow> string \<Rightarrow> py_error + employee list" where
  "load_from_csv float_of_str content =
     bind (reader_rows (dict_reader_row float_of_str) parse_reset (None, [])
             (file_lines (universal_newlines content)))
       (\<lambda>acc. Inr (snd acc))"

subsection \<open>The notions of the specification\<close>

text \<open>
  The five buckets as the specification gives them: the labels in their fixed order, and
  the label of a salary, found by trying the thresholds in order.
\<close>

definition bucket_labels :: "string list" where
  "bucket_labels = [''0-50k'', ''50k-70k'', ''70k-90k'', ''90k-100k'', ''100k+'']"

definition salary_bucket :: "rat \<Rightarrow> string" where
  "salary_bucket s =
     (if s < 50000 then ''0-50k''
      else if s < 70000 then ''50k-70k''
      else if s < 90000 then ''70k-90k''
      else if s < 100000 then ''90k-100k''
      else ''100k+'')"

definition bucket_count :: "employee list \<Rightarrow> string \<Rightarrow> int" where
  "bucket_count emps l = int (length (filter (\<lambda>e. salary_bucket (salary e) = l) emps))"

text \<open>
  The row of a bucket in the Salary Distribution section with the words of the
  specification taken as numbers: the count, the percentage \<open>count / total * 100\<close>, and
  a bar of \<open>floor (percentage / 2)\<close> characters.
\<close>

definition exact_bucket_row :: "employee list \<Rightarrow> string \<Rightarrow> string \<times> int \<times> rat \<times> string" where
  "exact_bucket_row emps l =
     (let c = bucket_count emps l;
          percentage = of_int c / of_int (int (length emps)) * 100
      in (l, c, percentage, replicate (nat \<lfloor>percentage / 2\<rfloor>) full_block))"

text \<open>
  The same row with the percentage in float arithmetic: the quotient \<open>count / total\<close>
  rounded to a double, and its product with 100 rounded to a double. The bar has
  \<open>floor (percentage / 2)\<close> characters for this percentage.
\<close>

definition float_bucket_row :: "employee list \<Rightarrow> string \<Rightarrow> string \<times> int \<times> rat \<times> string" where
  "float_bucket_row emps l =
     (let c = bucket_count emps l;
          percentage = fl (fl (of_int c / of_int (int (length emps))) * 100)
      in (l, c, percentage, replicate (nat \<lfloor>percentage / 2\<rfloor>) full_block))"

text \<open>
  What holds of the groups once the employees \<open>emps\<close> have been added: the keys are
  distinct and are the departments that occur, and the group of a department holds its
  members in source order, as many as its count says.
\<close>

definition groups_inv :: "employee list \<Rightarrow> (string \<times> dept_stats) list \<Rightarrow> bool" where
  "groups_inv emps d \<longleftrightarrow>
     distinct (map fst d) \<and> fst ` set d = department ` set emps \<and>
     (\<forall>(k, st) \<in> set d.
        count' st = int (length (employees st)) \<and>
        employees st = filter (\<lambda>e. department e = k) emps)"

text \<open>
  What holds in the second loop once the departments \<open>done\<close> have been visited: their
  two averages are stored, each the total divided by the count.
\<close>

definition averages_inv :: "employee list \<Rightarrow> string list \<Rightarrow> (string \<times> dept_stats) list \<Rightarrow> bool" where
  "averages_inv emps done d \<longleftrightarrow>
     groups_inv emps d \<and>
     (\<forall>(k, st) \<in> set d. k \<in> set done \<longrightarrow>
        avg_salary st = Some (fl (total_salary st / float_of_int (count' st))) \<and>
        avg_performance st = Some (fl (total_performance st / float_of_int (count' st))))"

section \<open>Properties\<close>

subsection \<open>Rounding to a double\<close>

lemma pow2_power_int: "pow2 k = power_int 2 k"
  by (simp add: pow2_def power_int_def inverse_eq_divide power_one_over)

lemma pow2_pos: "0 < pow2 k"
  by (simp add: pow2_power_int)

lemma pow2_mono: "a \<le> b \<Longrightarrow> pow2 a \<le> pow2 b"
  by (simp add: pow2_power_int power_int_increasing)

lemma pow2_strict_mono: "a < b \<Longrightarrow> pow2 a < pow2 b"
  by (simp add: pow2_power_int power_int_strict_increasing)

lemma pow2_add: "pow2 (a + b) = pow2 a * pow2 b"
  by (simp add: pow2_power_int power_int_add)

lemma pow2_nat: "0 \<le> k \<Longrightarrow> pow2 k = of_int (2 ^ nat k)"
  by (simp add: pow2_def)

lemma bit_length_pos: "0 < n \<Longrightarrow> 1 \<le> bit_length n"
proof -
  assume "0 < n"
  moreover have "0 \<le> bit_length m" for m
    by (induction m rule: bit_length.induct) (simp add: bit_length.simps)
  ultimately show ?thesis
    using bit_length.simps [of n] by (simp add: add_increasing2)
qed

lemma bit_length_bounds:
  "0 < n \<Longrightarrow> 2 ^ nat (bit_length n - 1) \<le> n \<and> n < 2 ^ nat (bit_length n)"
proof (induction n rule: bit_length.induct)
  case (1 n)
  show ?case
  proof (cases "n = 1")
    case True
    have "bit_length 1 = 1"
      by (simp add: bit_length.simps [of 1] bit_length.simps [of 0])
    with True show ?thesis by simp
  next
    case False
    with "1.prems" have m: "0 < n div 2" by simp
    let ?b = "bit_length (n div 2)"
    from "1.IH" "1.prems" m have lo: "2 ^ nat (?b - 1) \<le> n div 2"
      and hi: "n div 2 < 2 ^ nat ?b" by simp_all
    from m have b1: "1 \<le> ?b" by (rule bit_length_pos)
    have bn: "bit_length n = 1 + ?b"
      using "1.prems" by (simp add: bit_length.simps [of n])
    from b1 have e1: "nat ?b = Suc (nat (?b - 1))" by simp
    have "(2 :: int) ^ nat ?b = 2 * 2 ^ nat (?b - 1)" by (simp only: e1 power_Suc)
    also have "\<dots> \<le> 2 * (n div 2)" using lo by simp
    also have "\<dots> \<le> n" by simp
    finally have A: "2 ^ nat (bit_length n - 1) \<le> n" by (simp add: bn)
    from b1 have e2: "nat (1 + ?b) = Suc (nat ?b)" by simp
    from hi have "n div 2 + 1 \<le> 2 ^ nat ?b" by simp
    then have "2 * (n div 2 + 1) \<le> 2 * 2 ^ nat ?b" by simp
    moreover have "n < 2 * (n div 2 + 1)" by simp
    ultimately have "n < 2 * 2 ^ nat ?b" by linarith
    then have B: "n < 2 ^ nat (bit_length n)" by (simp only: bn e2 power_Suc)
    from A B show ?thesis ..
  qed
qed

lemma ilog2_bounds:
  assumes "0 < x"
  shows "pow2 (ilog2 x) \<le> x \<and> x < pow2 (ilog2 x + 1)"
proof (cases "1 \<le> x")
  case True
  let ?p = "\<lfloor>x\<rfloor>"
  from True have p: "0 < ?p" by simp
  from bit_length_bounds [OF p] have lo: "2 ^ nat (bit_length ?p - 1) \<le> ?p"
    and hi: "?p < 2 ^ nat (bit_length ?p)" by simp_all
  from p have b1: "1 \<le> bit_length ?p" by (rule bit_length_pos)
  have "(of_int (2 ^ nat (bit_length ?p - 1)) :: rat) \<le> of_int ?p"
    using lo by (simp only: of_int_le_iff)
  also have "\<dots> \<le> x" by simp
  finally have A: "pow2 (ilog2 x) \<le> x"
    using True b1 by (simp add: ilog2_def pow2_def)
  from hi have "?p + 1 \<le> 2 ^ nat (bit_length ?p)" by simp
  then have "(of_int (?p + 1) :: rat) \<le> of_int (2 ^ nat (bit_length ?p))"
    by (simp only: of_int_le_iff)
  moreover have "x < of_int (?p + 1)" by linarith
  ultimately have "x < of_int (2 ^ nat (bit_length ?p))" by linarith
  then have B: "x < pow2 (ilog2 x + 1)"
    using True b1 by (simp add: ilog2_def pow2_def)
  from A B show ?thesis ..
next
  case False
  then have x1: "x < 1" by simp
  let ?y = "1 / x"
  let ?n = "\<lceil>?y\<rceil>"
  from assms x1 have y1: "1 < ?y" by simp
  then have n2: "2 \<le> ?n" by (simp add: le_ceiling_iff)
  then have p: "0 < ?n - 1" by simp
  let ?c = "bit_length (?n - 1)"
  from bit_length_bounds [OF p] have lo: "2 ^ nat (?c - 1) \<le> ?n - 1"
    and hi: "?n - 1 < 2 ^ nat ?c" by simp_all
  from p have c1: "1 \<le> ?c" by (rule bit_length_pos)
  from hi have "?n \<le> 2 ^ nat ?c" by simp
  then have "(of_int ?n :: rat) \<le> of_int (2 ^ nat ?c)" by (simp only: of_int_le_iff)
  moreover have "?y \<le> of_int ?n" by (rule le_of_int_ceiling)
  moreover have "(of_int (2 ^ nat ?c) :: rat) = 2 ^ nat ?c" by simp
  ultimately have "?y \<le> 2 ^ nat ?c" by (simp only: order_trans)
  then have "1 \<le> 2 ^ nat ?c * x" using assms by (simp add: field_simps)
  then have A: "pow2 (ilog2 x) \<le> x"
    using False c1 by (simp add: ilog2_def pow2_def field_simps)
  have "(of_int (2 ^ nat (?c - 1)) :: rat) \<le> of_int (?n - 1)"
    using lo by (simp only: of_int_le_iff)
  moreover have "of_int (?n - 1) < ?y" using ceiling_correct [of ?y] by simp
  moreover have "(of_int (2 ^ nat (?c - 1)) :: rat) = 2 ^ nat (?c - 1)" by simp
  ultimately have "2 ^ nat (?c - 1) < ?y" by (simp only: le_less_trans)
  then have lt: "2 ^ nat (?c - 1) * x < 1" using assms by (simp add: field_simps)
  have B: "x < pow2 (ilog2 x + 1)"
  proof (cases "?c = 1")
    case True
    with False x1 show ?thesis by (simp add: ilog2_def pow2_def)
  next
    case ne: False
    with c1 have "1 < ?c" by simp
    then have eq: "pow2 (ilog2 x + 1) = 1 / 2 ^ nat (?c - 1)"
      using False by (simp add: ilog2_def pow2_def)
    have "x < 1 / 2 ^ nat (?c - 1)" using lt by (simp add: field_simps)
    then show ?thesis by (simp only: eq)
  qed
  from A B show ?thesis ..
qed

lemma rhe_ge_floor: "\<lfloor>x\<rfloor> \<le> round_half_even x"
  by (simp add: round_half_even_def Let_def)

lemma rhe_le_ceiling: "round_half_even x \<le> \<lceil>x\<rceil>"
proof -
  have "\<lfloor>x\<rfloor> + 1 \<le> \<lceil>x\<rceil>" if "0 < x - of_int \<lfloor>x\<rfloor>"
    using that by (simp add: le_ceiling_iff) 
  moreover have "\<lfloor>x\<rfloor> \<le> \<lceil>x\<rceil>" by (rule floor_le_ceiling)
  ultimately show ?thesis
    by (auto simp add: round_half_even_def Let_def)
qed

lemma rhe_of_int: "round_half_even (of_int n) = n"
  by (simp add: round_half_even_def Let_def)

lemma rhe_mono:
  assumes "x \<le> y"
  shows "round_half_even x \<le> round_half_even y"
proof (cases "\<lfloor>x\<rfloor> = \<lfloor>y\<rfloor>")
  case True
  with assms show ?thesis
    by (auto simp add: round_half_even_def Let_def)
next
  case False
  with assms have "\<lfloor>x\<rfloor> < \<lfloor>y\<rfloor>"
    using floor_mono [of x y] by simp
  moreover have "round_half_even x \<le> \<lfloor>x\<rfloor> + 1"
    by (simp add: round_half_even_def Let_def)
  ultimately show ?thesis
    using rhe_ge_floor [of y] by linarith
qed

lemma fl_pos_eq:
  "0 < x \<Longrightarrow> fl x = of_int (round_half_even (x / pow2 (ulp_exp x))) * pow2 (ulp_exp x)"
  by (simp add: fl_def)

lemma ulp_exp_minus: "ulp_exp (- x) = ulp_exp x"
  by (simp add: ulp_exp_def)

lemma fl_minus: "fl (- x) = - fl x"
  by (simp add: fl_def ulp_exp_minus sgn_minus)

lemma rhe_nonneg: "0 \<le> x \<Longrightarrow> 0 \<le> round_half_even x"
  using rhe_ge_floor [of x] by (simp add: order_trans [of 0 "\<lfloor>x\<rfloor>"])

lemma fl_nonneg:
  assumes "0 \<le> x"
  shows "0 \<le> fl x"
proof (cases "x = 0")
  case True
  then show ?thesis by (simp add: fl_def)
next
  case False
  with assms have x: "0 < x" by simp
  have "0 \<le> x / pow2 (ulp_exp x)"
    using x pow2_pos [of "ulp_exp x"] by simp
  then have "0 \<le> round_half_even (x / pow2 (ulp_exp x))" by (rule rhe_nonneg)
  then show ?thesis
    using pow2_pos [of "ulp_exp x"] by (simp add: fl_pos_eq [OF x])
qed

lemma ilog2_mono:
  assumes "0 < x" "x \<le> y"
  shows "ilog2 x \<le> ilog2 y"
proof (rule ccontr)
  assume "\<not> ilog2 x \<le> ilog2 y"
  then have "ilog2 y + 1 \<le> ilog2 x" by simp
  then have "pow2 (ilog2 y + 1) \<le> pow2 (ilog2 x)" by (rule pow2_mono)
  moreover have "pow2 (ilog2 x) \<le> x" using ilog2_bounds [OF assms(1)] by simp
  moreover have "y < pow2 (ilog2 y + 1)" using ilog2_bounds [of y] assms by simp
  ultimately show False using assms(2) by linarith
qed

lemma ilog2_ge: "0 < x \<Longrightarrow> pow2 k \<le> x \<Longrightarrow> k \<le> ilog2 x"
proof (rule ccontr)
  assume x: "0 < x" and k: "pow2 k \<le> x" and "\<not> k \<le> ilog2 x"
  then have "ilog2 x + 1 \<le> k" by simp
  then have "pow2 (ilog2 x + 1) \<le> pow2 k" by (rule pow2_mono)
  with k ilog2_bounds [OF x] show False by linarith
qed

lemma pow2_diff: "pow2 a / pow2 b = pow2 (a - b)"
  using pow2_add [of "a - b" b] pow2_pos [of b] by (simp add: field_simps)

text \<open>The lower end of the binade is a double, so rounding does not go below it.\<close>

lemma fl_lower:
  assumes x: "0 < x" and k: "ulp_exp x \<le> k" and le: "pow2 k \<le> x"
  shows "pow2 k \<le> fl x"
proof -
  let ?e = "ulp_exp x"
  have "pow2 (k - ?e) \<le> x / pow2 ?e"
    using le pow2_pos [of ?e] by (simp add: pow2_diff [symmetric] divide_right_mono)
  moreover have "pow2 (k - ?e) = of_int (2 ^ nat (k - ?e))"
    using k by (simp add: pow2_nat)
  ultimately have "(2 ^ nat (k - ?e) :: int) \<le> \<lfloor>x / pow2 ?e\<rfloor>"
    by (simp only: le_floor_iff)
  then have "(2 ^ nat (k - ?e) :: int) \<le> round_half_even (x / pow2 ?e)"
    using rhe_ge_floor [of "x / pow2 ?e"] by linarith
  then have "(of_int (2 ^ nat (k - ?e)) :: rat) \<le> of_int (round_half_even (x / pow2 ?e))"
    by (simp only: of_int_le_iff)
  then have "pow2 (k - ?e) * pow2 ?e \<le> of_int (round_half_even (x / pow2 ?e)) * pow2 ?e"
    using k pow2_pos [of ?e] by (simp only: pow2_nat mult_le_cancel_right_pos)
  then show ?thesis
    using pow2_add [of "k - ?e" ?e] by (simp add: fl_pos_eq [OF x])
qed

lemma fl_upper:
  assumes x: "0 < x" and k: "ulp_exp x \<le> k" and le: "x \<le> pow2 k"
  shows "fl x \<le> pow2 k"
proof -
  let ?e = "ulp_exp x"
  have "x / pow2 ?e \<le> pow2 (k - ?e)"
    using le pow2_pos [of ?e] by (simp add: pow2_diff [symmetric] divide_right_mono)
  moreover have "pow2 (k - ?e) = of_int (2 ^ nat (k - ?e))"
    using k by (simp add: pow2_nat)
  ultimately have "\<lceil>x / pow2 ?e\<rceil> \<le> (2 ^ nat (k - ?e) :: int)"
    by (simp only: ceiling_le_iff)
  then have "round_half_even (x / pow2 ?e) \<le> (2 ^ nat (k - ?e) :: int)"
    using rhe_le_ceiling [of "x / pow2 ?e"] by linarith
  then have "(of_int (round_half_even (x / pow2 ?e)) :: rat) \<le> of_int (2 ^ nat (k - ?e))"
    by (simp only: of_int_le_iff)
  then have "of_int (round_half_even (x / pow2 ?e)) * pow2 ?e \<le> pow2 (k - ?e) * pow2 ?e"
    using k pow2_pos [of ?e] by (simp only: pow2_nat mult_le_cancel_right_pos)
  then show ?thesis
    using pow2_add [of "k - ?e" ?e] by (simp add: fl_pos_eq [OF x])
qed

lemma fl_mono_pos:
  assumes x: "0 < x" and xy: "x \<le> y"
  shows "fl x \<le> fl y"
proof -
  from x xy have y: "0 < y" by simp
  have il: "ilog2 x \<le> ilog2 y" using x xy by (rule ilog2_mono)
  then have ee: "ulp_exp x \<le> ulp_exp y"
    using x y by (simp add: ulp_exp_def)
  show ?thesis
  proof (cases "ulp_exp x = ulp_exp y")
    case True
    have "x / pow2 (ulp_exp y) \<le> y / pow2 (ulp_exp y)"
      using xy pow2_pos [of "ulp_exp y"] by (simp add: divide_right_mono)
    then have "round_half_even (x / pow2 (ulp_exp y)) \<le> round_half_even (y / pow2 (ulp_exp y))"
      by (rule rhe_mono)
    then have "(of_int (round_half_even (x / pow2 (ulp_exp y))) :: rat)
                 \<le> of_int (round_half_even (y / pow2 (ulp_exp y)))"
      by (simp only: of_int_le_iff)
    then show ?thesis
      using pow2_pos [of "ulp_exp y"]
      by (simp only: fl_pos_eq [OF x] fl_pos_eq [OF y] True mult_le_cancel_right_pos)
  next
    case False
    with ee have lt: "ulp_exp x < ulp_exp y" by simp
    let ?k = "max (ilog2 x + 1) (ulp_exp x)"
    have kx: "ulp_exp x \<le> ?k" by simp
    have "x \<le> pow2 (ilog2 x + 1)" using ilog2_bounds [OF x] by simp
    also have "\<dots> \<le> pow2 ?k" by (rule pow2_mono) simp
    finally have "fl x \<le> pow2 ?k" by (rule fl_upper [OF x kx])
    moreover have "pow2 ?k \<le> fl y"
    proof -
      from lt x y have ey: "ulp_exp y = ilog2 y - 52" and xl: "ilog2 x < ilog2 y"
        by (auto simp add: ulp_exp_def max_def split: if_splits)
      from xl lt ey have "?k \<le> ilog2 y" by simp
      then have "pow2 ?k \<le> pow2 (ilog2 y)" by (rule pow2_mono)
      also have "\<dots> \<le> fl y"
      proof (rule fl_lower [OF y])
        show "ulp_exp y \<le> ilog2 y" using ey by simp
        show "pow2 (ilog2 y) \<le> y" using ilog2_bounds [OF y] by simp
      qed
      finally show ?thesis .
    qed
    ultimately show ?thesis by simp
  qed
qed

lemma fl_mono:
  assumes "x \<le> y"
  shows "fl x \<le> fl y"
proof -
  consider "0 < x" | "x \<le> 0" "0 \<le> y" | "y < 0" by linarith
  then show ?thesis
  proof cases
    case 1
    then show ?thesis using assms by (rule fl_mono_pos)
  next
    case 2
    then have "0 \<le> fl y" and "0 \<le> fl (- x)" by (simp_all add: fl_nonneg)
    then show ?thesis by (simp add: fl_minus)
  next
    case 3
    then have "0 < - y" and "- y \<le> - x" using assms by simp_all
    then have "fl (- y) \<le> fl (- x)" by (rule fl_mono_pos)
    then show ?thesis by (simp add: fl_minus)
  qed
qed

lemma fl_pos_ge_one:
  assumes "1 \<le> x"
  shows "1 \<le> fl x"
proof -
  from assms have x: "0 < x" by simp
  from assms have "pow2 0 \<le> x" by (simp add: pow2_def)
  with x have i0: "0 \<le> ilog2 x" by (rule ilog2_ge)
  with x have e: "ulp_exp x \<le> ilog2 x" by (simp add: ulp_exp_def)
  have "pow2 0 \<le> pow2 (ilog2 x)" using i0 by (rule pow2_mono)
  also have "\<dots> \<le> fl x"
    using ilog2_bounds [OF x] by (intro fl_lower [OF x e]) simp
  finally show ?thesis by (simp add: pow2_def)
qed

lemma float_of_int_pos: "1 \<le> c \<Longrightarrow> float_of_int c \<noteq> 0"
  using fl_pos_ge_one [of "of_int c"] by (simp add: float_of_int_def)

subsection \<open>Doubles\<close>

lemma pow2_less_cancel: "pow2 a < pow2 b \<Longrightarrow> a < b"
  using pow2_mono [of b a] by (cases "a < b") simp_all

lemma fl_double_pos:
  assumes m: "0 < m" "m < 2 ^ 53" and e: "- 1074 \<le> e"
  shows "fl (of_int m * pow2 e) = of_int m * pow2 e"
proof -
  let ?x = "of_int m * pow2 e :: rat"
  have x: "0 < ?x" using m(1) pow2_pos [of e] by simp
  let ?E = "ulp_exp ?x"
  have Ee: "?E \<le> e"
  proof -
    have "pow2 (ilog2 ?x) \<le> ?x" using ilog2_bounds [OF x] by simp
    also have "?x < of_int (2 ^ 53) * pow2 e"
      using m(2) pow2_pos [of e] by (simp only: mult_less_cancel_right_pos of_int_less_iff)
    also have "\<dots> = pow2 (53 + e)" by (simp add: pow2_add) (simp add: pow2_def)
    finally have "ilog2 ?x < 53 + e" by (rule pow2_less_cancel)
    with x e show ?thesis by (simp add: ulp_exp_def)
  qed
  have "?x / pow2 ?E = of_int m * pow2 (e - ?E)"
    by (simp add: pow2_diff [symmetric])
  also have "\<dots> = of_int (m * 2 ^ nat (e - ?E))"
    using Ee by (simp add: pow2_nat)
  finally have "round_half_even (?x / pow2 ?E) = m * 2 ^ nat (e - ?E)"
    by (simp only: rhe_of_int)
  then have "fl ?x = of_int (m * 2 ^ nat (e - ?E)) * pow2 ?E"
    by (simp only: fl_pos_eq [OF x])
  also have "\<dots> = of_int m * (pow2 (e - ?E) * pow2 ?E)"
    using Ee by (simp add: pow2_nat)
  also have "pow2 (e - ?E) * pow2 ?E = pow2 e"
    using pow2_add [of "e - ?E" ?E] by simp
  finally show ?thesis .
qed

lemma fl_double: "is_double y \<Longrightarrow> fl y = y"
proof -
  assume "is_double y"
  then obtain m e where y: "y = of_int m * pow2 e" and m: "\<bar>m\<bar> < 2 ^ 53" and e: "- 1074 \<le> e"
    by (auto simp add: is_double_def)
  consider "0 < m" | "m = 0" | "m < 0" by linarith
  then show ?thesis
  proof cases
    case 1
    with m e show ?thesis by (simp add: y fl_double_pos)
  next
    case 2
    then show ?thesis by (simp add: y fl_def)
  next
    case 3
    with m have "0 < - m" "- m < 2 ^ 53" by simp_all
    from fl_double_pos [OF this e] have "fl (- y) = - y" by (simp add: y)
    then show ?thesis by (simp add: fl_minus)
  qed
qed

lemma is_double_fl_pos:
  assumes x: "0 < x"
  shows "is_double (fl x)"
proof -
  let ?E = "ulp_exp x"
  let ?M = "round_half_even (x / pow2 ?E)"
  have E: "- 1074 \<le> ?E" by (simp add: ulp_exp_def)
  have "0 \<le> x / pow2 ?E" using x pow2_pos [of ?E] by simp
  then have M0: "0 \<le> ?M" by (rule rhe_nonneg)
  have "x < pow2 (ilog2 x + 1)" using ilog2_bounds [OF x] by simp
  also have "\<dots> \<le> pow2 (53 + ?E)"
    using x by (intro pow2_mono) (simp add: ulp_exp_def)
  finally have "x / pow2 ?E < pow2 (53 + ?E) / pow2 ?E"
    using pow2_pos [of ?E] by (simp add: divide_strict_right_mono)
  then have "x / pow2 ?E \<le> of_int (2 ^ 53)"
    by (simp add: pow2_diff) (simp add: pow2_def)
  then have "\<lceil>x / pow2 ?E\<rceil> \<le> 2 ^ 53" by (simp only: ceiling_le_iff)
  with rhe_le_ceiling [of "x / pow2 ?E"] have M53: "?M \<le> 2 ^ 53" by linarith
  show ?thesis
  proof (cases "?M = 2 ^ 53")
    case True
    have "fl x = of_int (2 ^ 53) * pow2 ?E" by (simp only: fl_pos_eq [OF x] True)
    also have "\<dots> = of_int (2 ^ 52) * (pow2 1 * pow2 ?E)" by (simp add: pow2_def)
    also have "pow2 1 * pow2 ?E = pow2 (1 + ?E)" by (simp only: pow2_add)
    finally have "fl x = of_int (2 ^ 52) * pow2 (1 + ?E)" .
    moreover have "\<bar>2 ^ 52 :: int\<bar> < 2 ^ 53" by simp
    moreover have "- 1074 \<le> 1 + ?E" using E by simp
    ultimately show ?thesis unfolding is_double_def by blast
  next
    case False
    with M0 M53 have "\<bar>?M\<bar> < 2 ^ 53" by simp
    moreover have "fl x = of_int ?M * pow2 ?E" by (rule fl_pos_eq [OF x])
    ultimately show ?thesis using E unfolding is_double_def by blast
  qed
qed

lemma is_double_minus: "is_double y \<Longrightarrow> is_double (- y)"
proof -
  assume "is_double y"
  then obtain m e where "y = of_int m * pow2 e" "\<bar>m\<bar> < 2 ^ 53" "- 1074 \<le> e"
    by (auto simp add: is_double_def)
  then have "- y = of_int (- m) * pow2 e \<and> \<bar>- m\<bar> < 2 ^ 53 \<and> - 1074 \<le> e" by simp
  then show ?thesis unfolding is_double_def by blast
qed

lemma is_double_zero: "is_double 0"
  unfolding is_double_def by (intro exI [where x = 0]) simp

lemma is_double_fl: "is_double (fl x)"
proof -
  consider "0 < x" | "x = 0" | "x < 0" by linarith
  then show ?thesis
  proof cases
    case 1
    then show ?thesis by (rule is_double_fl_pos)
  next
    case 2
    then show ?thesis by (simp add: fl_def is_double_zero)
  next
    case 3
    then have "is_double (fl (- x))" by (intro is_double_fl_pos) simp
    then have "is_double (- fl (- x))" by (rule is_double_minus)
    then show ?thesis by (simp add: fl_minus)
  qed
qed

lemma is_double_half:
  assumes "is_double p" and "1 \<le> p"
  shows "is_double (p / 2)"
proof -
  from assms(1) obtain m e where p: "p = of_int m * pow2 e" and m: "\<bar>m\<bar> < 2 ^ 53"
    and e: "- 1074 \<le> e"
    by (auto simp add: is_double_def)
  have "- 1074 < e"
  proof (rule ccontr)
    assume "\<not> - 1074 < e"
    with e have e': "e = - 1074" by simp
    have mpos: "0 < m"
    proof (rule ccontr)
      assume "\<not> 0 < m"
      then have "(of_int m :: rat) \<le> 0" by simp
      then have "of_int m * pow2 e \<le> 0"
        using pow2_pos [of e] by (simp add: mult_le_0_iff)
      with assms(2) p show False by simp
    qed
    have "of_int m * pow2 (- 1074) < of_int (2 ^ 53) * pow2 (- 1074)"
      using m mpos pow2_pos [of "- 1074"]
      by (simp only: mult_less_cancel_right_pos of_int_less_iff)
    also have "\<dots> = pow2 (- 1021)"
      using pow2_add [of 53 "- 1074"] by (simp add: pow2_nat)
    also have "\<dots> \<le> pow2 0" by (rule pow2_mono) simp
    finally show False using assms(2) by (simp add: p e' pow2_def)
  qed
  then have "- 1074 \<le> e - 1" by simp
  moreover have "p / 2 = of_int m * pow2 (e - 1)"
    using pow2_add [of "e - 1" 1] by (simp add: p pow2_def)
  ultimately show ?thesis using m unfolding is_double_def by blast
qed

lemma floor_fl_half:
  assumes "is_double p" and "0 \<le> p"
  shows "\<lfloor>fl (p / 2)\<rfloor> = \<lfloor>p / 2\<rfloor>"
proof (cases "1 \<le> p")
  case True
  with assms(1) have "is_double (p / 2)" by (rule is_double_half)
  then show ?thesis by (simp add: fl_double)
next
  case False
  then have "p / 2 \<le> 1 / 2" by simp
  then have "fl (p / 2) \<le> fl (1 / 2)" by (rule fl_mono)
  moreover have "fl (1 / 2) = 1 / 2" by code_simp
  moreover have "0 \<le> fl (p / 2)" using assms(2) by (intro fl_nonneg) simp
  ultimately have "\<lfloor>fl (p / 2)\<rfloor> = 0" by (simp add: floor_eq_iff)
  moreover from False assms(2) have "\<lfloor>p / 2\<rfloor> = 0" by (simp add: floor_eq_iff)
  ultimately show ?thesis by simp
qed

lemma float_of_int_small: "float_of_int 2 = 2" "float_of_int 100 = 100"
  by code_simp+

subsection \<open>Dictionaries\<close>

lemma dict_get_Inr_iff: "dict_get d k = Inr v \<longleftrightarrow> map_of d k = Some v"
  by (simp add: dict_get_def split: option.splits)

lemma map_of_dict_set: "map_of (dict_set d k v) = (map_of d)(k \<mapsto> v)"
  by (induction d) (auto simp add: fun_eq_iff)

lemma keys_dict_set: "fst ` set (dict_set d k v) = insert k (fst ` set d)"
  by (simp add: dom_map_of_conv_image_fst [symmetric] map_of_dict_set)

lemma distinct_dict_set: "distinct (map fst d) \<Longrightarrow> distinct (map fst (dict_set d k v))"
  by (induction d) (auto simp add: keys_dict_set)

lemma set_dict_set_subset: "set (dict_set d k v) \<subseteq> insert (k, v) (set d)"
  by (induction d) (auto split: if_splits)

lemma set_dict_set_distinct:
  "distinct (map fst d) \<Longrightarrow> (k', v') \<in> set (dict_set d k v) \<Longrightarrow>
     (k' = k \<and> v' = v) \<or> (k' \<noteq> k \<and> (k', v') \<in> set d)"
  by (induction d) (auto simp add: rev_image_eqI split: if_splits)

lemma dict_set_twice: "dict_set (dict_set d k v) k v' = dict_set d k v'"
  by (induction d) auto

lemma dict_get_dict_set: "dict_get (dict_set d k v) k = Inr v"
  by (simp add: dict_get_def map_of_dict_set)

lemma dict_contains_iff: "dict_contains d k \<longleftrightarrow> map_of d k \<noteq> None"
  by (simp add: dict_contains_def map_of_eq_None_iff)

lemma dict_modify_present:
  "map_of d k = Some v \<Longrightarrow> dict_modify d k f = Inr (dict_set d k (f v))"
  by (simp add: dict_modify_def dict_get_def bind_def)

lemma dict_modify_dict_set:
  "dict_modify (dict_set d k v) k f = Inr (dict_set d k (f v))"
  by (simp add: dict_modify_present [of _ _ v] map_of_dict_set dict_set_twice)

subsection \<open>Loops with an invariant\<close>

lemma for_each_invariant:
  assumes "P pre s"
    and "\<And>pre x s. P pre s \<Longrightarrow> x \<in> set xs \<Longrightarrow> \<exists>s'. body s x = Inr s' \<and> P (pre @ [x]) s'"
  shows "\<exists>s'. for_each body s xs = Inr s' \<and> P (pre @ xs) s'"
  using assms
proof (induction xs arbitrary: s pre)
  case Nil
  then show ?case by simp
next
  case (Cons x xs)
  from Cons.prems(2) [OF Cons.prems(1), of x]
  obtain s1 where s1: "body s x = Inr s1" and p1: "P (pre @ [x]) s1" by auto
  have "\<exists>s'. for_each body s1 xs = Inr s' \<and> P ((pre @ [x]) @ xs) s'"
  proof (rule Cons.IH [OF p1])
    fix pre' y s'
    assume "P pre' s'" and "y \<in> set xs"
    then show "\<exists>s''. body s' y = Inr s'' \<and> P (pre' @ [y]) s''"
      using Cons.prems(2) [of pre' s' y] by simp
  qed
  then show ?case by (simp add: s1 bind_def)
qed

subsection \<open>Sorting\<close>

lemma py_sorted_reverse_stable_desc:
  "stable_desc_sorted key xs (py_sorted key True xs)"
proof -
  have "sorted (map key (sort_key key (rev xs)))"
    by (rule sorted_sort_key)
  then have "sorted_wrt (\<lambda>a b. key a \<le> key b) (sort_key key (rev xs))"
    by (simp add: sorted_map)
  then have desc: "sorted_wrt (\<lambda>a b. key a \<ge> key b) (rev (sort_key key (rev xs)))"
    by (simp add: sorted_wrt_rev)
  have stab: "filter (\<lambda>e. key e = k) (rev (sort_key key (rev xs))) = filter (\<lambda>e. key e = k) xs"
    for k
  proof -
    have "filter (\<lambda>e. key e = k) (rev (sort_key key (rev xs)))
            = rev (filter (\<lambda>e. key e = k) (sort_key key (rev xs)))"
      by (simp add: rev_filter)
    also have "\<dots> = rev (filter (\<lambda>e. key e = k) (rev xs))"
      by (simp add: sort_key_stable)
    also have "\<dots> = filter (\<lambda>e. key e = k) xs"
      by (simp add: rev_filter)
    finally show ?thesis .
  qed
  show ?thesis
    unfolding stable_desc_sorted_def py_sorted_def using desc stab by simp
qed

text \<open>The three conditions determine the list: there is one stable descending sort.\<close>

lemma stable_desc_sorted_unique:
  assumes "stable_desc_sorted key xs ys"
  shows "ys = py_sorted key True xs"
proof -
  from assms have m: "mset ys = mset xs"
    and d: "sorted_wrt (\<lambda>a b. key a \<ge> key b) ys"
    and s: "\<And>k. filter (\<lambda>e. key e = k) ys = filter (\<lambda>e. key e = k) xs"
    by (simp_all add: stable_desc_sorted_def)
  have "sort_key key (rev xs) = rev ys"
  proof (rule properties_for_sort_key)
    show "mset (rev ys) = mset (rev xs)" using m by simp
    show "filter (\<lambda>x. key k = key x) (rev ys) = filter (\<lambda>x. key k = key x) (rev xs)" for k
    proof -
      have "filter (\<lambda>x. key x = key k) ys = filter (\<lambda>x. key x = key k) xs"
        by (rule s)
      then have "filter (\<lambda>x. key k = key x) ys = filter (\<lambda>x. key k = key x) xs"
        by (simp add: eq_commute)
      then show ?thesis by (simp add: rev_filter [symmetric])
    qed
    show "sorted (map key (rev ys))"
      using d by (simp add: sorted_map sorted_wrt_rev)
  qed
  then show ?thesis by (simp add: py_sorted_def)
qed

lemma length_py_sorted: "length (py_sorted key r xs) = length xs"
  by (simp add: py_sorted_def)

subsection \<open>Top performers\<close>

text \<open>
  C2. For every employee list and every \<open>n \<ge> 0\<close>, \<open>get_top_performers(n)\<close> is the first
  \<open>n\<close> elements of the list sorted by \<open>performance_score\<close> descending with equal scores
  in source order; it is empty for \<open>n = 0\<close>, and it is the whole sorted list, neither
  padded nor an error, for \<open>n\<close> beyond the length of the list.
\<close>

theorem get_top_performers_nonneg:
  assumes "0 \<le> n"
  shows "\<exists>s. stable_desc_sorted performance_score emps s \<and>
             get_top_performers emps n = take (nat n) s \<and>
             (n = 0 \<longrightarrow> get_top_performers emps n = []) \<and>
             (n > int (length emps) \<longrightarrow> get_top_performers emps n = s)"
proof (intro exI conjI)
  let ?s = "py_sorted performance_score True emps"
  show "stable_desc_sorted performance_score emps ?s"
    by (rule py_sorted_reverse_stable_desc)
  show eq: "get_top_performers emps n = take (nat n) ?s"
    using assms
    by (simp add: get_top_performers_def py_slice_to_def Let_def length_py_sorted min_def)
  show "n = 0 \<longrightarrow> get_top_performers emps n = []"
    using eq by auto
  show "n > int (length emps) \<longrightarrow> get_top_performers emps n = ?s"
    using eq by (simp add: length_py_sorted)
qed

theorem get_top_performers_nonneg_witness:
  "(0::int) \<le> 2 \<and>
   get_top_performers
     [Employee ''EMP0001'' ''A'' ''HR'' 50000 ''2024-01-01'' 7,
      Employee ''EMP0002'' ''B'' ''HR'' 60000 ''2024-01-02'' 9,
      Employee ''EMP0003'' ''C'' ''Sales'' 70000 ''2024-01-03'' 7] 2
   = [Employee ''EMP0002'' ''B'' ''HR'' 60000 ''2024-01-02'' 9,
      Employee ''EMP0001'' ''A'' ''HR'' 50000 ''2024-01-01'' 7]"
proof -
  let ?es = "[Employee ''EMP0001'' ''A'' ''HR'' 50000 ''2024-01-01'' 7,
      Employee ''EMP0002'' ''B'' ''HR'' 60000 ''2024-01-02'' 9,
      Employee ''EMP0003'' ''C'' ''Sales'' 70000 ''2024-01-03'' 7]"
  have h: "(0::int) \<le> 2" by simp
  from get_top_performers_nonneg [OF h, of ?es]
  obtain s where s: "stable_desc_sorted performance_score ?es s"
    and t: "get_top_performers ?es 2 = take (nat 2) s"
    by blast
  from s have "s = py_sorted performance_score True ?es"
    by (rule stable_desc_sorted_unique)
  then have "take (nat 2) s = [Employee ''EMP0002'' ''B'' ''HR'' 60000 ''2024-01-02'' 9,
      Employee ''EMP0001'' ''A'' ''HR'' 50000 ''2024-01-01'' 7]"
    by (simp add: py_sorted_def Employee_def)
  with t h show ?thesis by simp
qed

text \<open>
  C10, as amended. For every employee list of length \<open>len\<close> and every \<open>n < 0\<close>,
  \<open>get_top_performers(n)\<close> does not raise: for \<open>-len < n\<close> it is the first \<open>len + n\<close>
  elements of the descending sorted list, a non-empty proper prefix; for \<open>n \<le> -len\<close> it
  is empty; and for a non-empty list it is never the full sorted list.
\<close>

theorem get_top_performers_negative:
  assumes "n < 0"
  shows "(- int (length emps) < n \<longrightarrow>
            get_top_performers emps n
              = take (nat (int (length emps) + n))
                  (py_sorted performance_score True emps) \<and>
            get_top_performers emps n \<noteq> [] \<and>
            length (get_top_performers emps n) < length emps) \<and>
         (n \<le> - int (length emps) \<longrightarrow> get_top_performers emps n = []) \<and>
         (emps \<noteq> [] \<longrightarrow>
            get_top_performers emps n \<noteq> py_sorted performance_score True emps)"
proof -
  let ?s = "py_sorted performance_score True emps"
  have eq: "get_top_performers emps n = take (nat (int (length emps) + n)) ?s"
    using assms
    by (simp add: get_top_performers_def py_slice_to_def Let_def length_py_sorted max_def)
  have len: "length (get_top_performers emps n) = nat (int (length emps) + n)"
    using assms by (simp add: eq length_py_sorted)
  have a: "get_top_performers emps n \<noteq> []"
      and b: "length (get_top_performers emps n) < length emps"
    if "- int (length emps) < n"
  proof -
    from that len have "0 < length (get_top_performers emps n)" by simp
    then show "get_top_performers emps n \<noteq> []" by simp
    from that assms len show "length (get_top_performers emps n) < length emps"
      by simp
  qed
  have c: "get_top_performers emps n = []" if "n \<le> - int (length emps)"
    using that len by simp
  have d: "get_top_performers emps n \<noteq> ?s" if "emps \<noteq> []"
  proof
    assume "get_top_performers emps n = ?s"
    then have "length (get_top_performers emps n) = length emps"
      by (simp add: length_py_sorted)
    moreover from that have "0 < length emps" by simp
    ultimately show False using len assms by linarith
  qed
  from eq a b c d show ?thesis by blast
qed

theorem get_top_performers_negative_witness:
  "(- 1 :: int) < 0 \<and>
   get_top_performers
     [Employee ''EMP0001'' ''A'' ''HR'' 50000 ''2024-01-01'' 7,
      Employee ''EMP0002'' ''B'' ''HR'' 60000 ''2024-01-02'' 9,
      Employee ''EMP0003'' ''C'' ''Sales'' 70000 ''2024-01-03'' 7] (- 1)
   = [Employee ''EMP0002'' ''B'' ''HR'' 60000 ''2024-01-02'' 9,
      Employee ''EMP0001'' ''A'' ''HR'' 50000 ''2024-01-01'' 7] \<and>
   get_top_performers
     [Employee ''EMP0001'' ''A'' ''HR'' 50000 ''2024-01-01'' 7,
      Employee ''EMP0002'' ''B'' ''HR'' 60000 ''2024-01-02'' 9,
      Employee ''EMP0003'' ''C'' ''Sales'' 70000 ''2024-01-03'' 7] (- 3) = []"
proof -
  let ?es = "[Employee ''EMP0001'' ''A'' ''HR'' 50000 ''2024-01-01'' 7,
      Employee ''EMP0002'' ''B'' ''HR'' 60000 ''2024-01-02'' 9,
      Employee ''EMP0003'' ''C'' ''Sales'' 70000 ''2024-01-03'' 7]"
  have h1: "(- 1 :: int) < 0" and h3: "(- 3 :: int) < 0" by simp_all
  have "get_top_performers ?es (- 1)
          = take (nat (int (length ?es) + (- 1))) (py_sorted performance_score True ?es)"
    using get_top_performers_negative [OF h1, of ?es] by simp
  then have one: "get_top_performers ?es (- 1)
      = [Employee ''EMP0002'' ''B'' ''HR'' 60000 ''2024-01-02'' 9,
         Employee ''EMP0001'' ''A'' ''HR'' 50000 ''2024-01-01'' 7]"
    by (simp add: py_sorted_def Employee_def)
  have three: "get_top_performers ?es (- 3) = []"
    using get_top_performers_negative [OF h3, of ?es] by simp
  from h1 one three show ?thesis by simp
qed

text \<open>
  C10 as stated fails on the empty list: there the result for a negative \<open>n\<close> is the
  empty list, which is the full sorted list.
\<close>

theorem get_top_performers_negative_full_list_counterexample:
  "(- 1 :: int) < 0 \<and>
   get_top_performers [] (- 1) = py_sorted performance_score True ([] :: employee list)"
  by (simp add: get_top_performers_def py_slice_to_def py_sorted_def)

subsection \<open>The salary distribution\<close>

lemma salary_range_step_eq:
  "salary_range_step
     [(''0-50k'', c1), (''50k-70k'', c2), (''70k-90k'', c3), (''90k-100k'', c4), (''100k+'', c5)] e
   = Inr [(''0-50k'', c1 + (if salary e < 50000 then 1 else 0)),
          (''50k-70k'', c2 + (if 50000 \<le> salary e \<and> salary e < 70000 then 1 else 0)),
          (''70k-90k'', c3 + (if 70000 \<le> salary e \<and> salary e < 90000 then 1 else 0)),
          (''90k-100k'', c4 + (if 90000 \<le> salary e \<and> salary e < 100000 then 1 else 0)),
          (''100k+'', c5 + (if 100000 \<le> salary e then 1 else 0))]"
  by (simp add: salary_range_step_def dict_modify_def dict_get_def bind_def)

lemma salary_range_loop:
  "for_each salary_range_step
     [(''0-50k'', c1), (''50k-70k'', c2), (''70k-90k'', c3), (''90k-100k'', c4), (''100k+'', c5)]
     emps
   = Inr [(''0-50k'', c1 + int (length (filter (\<lambda>e. salary e < 50000) emps))),
          (''50k-70k'', c2 + int (length (filter (\<lambda>e. 50000 \<le> salary e \<and> salary e < 70000) emps))),
          (''70k-90k'', c3 + int (length (filter (\<lambda>e. 70000 \<le> salary e \<and> salary e < 90000) emps))),
          (''90k-100k'', c4 + int (length (filter (\<lambda>e. 90000 \<le> salary e \<and> salary e < 100000) emps))),
          (''100k+'', c5 + int (length (filter (\<lambda>e. 100000 \<le> salary e) emps)))]"
proof (induction emps arbitrary: c1 c2 c3 c4 c5)
  case Nil
  show ?case by simp
next
  case (Cons e emps)
  show ?case
    by (simp add: salary_range_step_eq bind_def Cons.IH)
qed

lemma buckets_partition:
  "length (filter (\<lambda>e. salary e < 50000) emps)
   + length (filter (\<lambda>e. 50000 \<le> salary e \<and> salary e < 70000) emps)
   + length (filter (\<lambda>e. 70000 \<le> salary e \<and> salary e < 90000) emps)
   + length (filter (\<lambda>e. 90000 \<le> salary e \<and> salary e < 100000) emps)
   + length (filter (\<lambda>e. 100000 \<le> salary e) emps) = length emps"
  by (induction emps) auto

lemma bucket_count_simps:
  "bucket_count emps ''0-50k'' = int (length (filter (\<lambda>e. salary e < 50000) emps))"
  "bucket_count emps ''50k-70k''
     = int (length (filter (\<lambda>e. 50000 \<le> salary e \<and> salary e < 70000) emps))"
  "bucket_count emps ''70k-90k''
     = int (length (filter (\<lambda>e. 70000 \<le> salary e \<and> salary e < 90000) emps))"
  "bucket_count emps ''90k-100k''
     = int (length (filter (\<lambda>e. 90000 \<le> salary e \<and> salary e < 100000) emps))"
  "bucket_count emps ''100k+'' = int (length (filter (\<lambda>e. 100000 \<le> salary e) emps))"
  unfolding bucket_count_def
  by (intro arg_cong [where f = int] arg_cong [where f = length] filter_cong refl,
      auto simp add: salary_bucket_def)+

lemma salary_distribution_eq:
  "get_salary_range_distribution emps = Inr (map (\<lambda>l. (l, bucket_count emps l)) bucket_labels)"
  unfolding get_salary_range_distribution_def initial_ranges_def
  by (simp add: salary_range_loop bucket_labels_def bucket_count_simps)

lemma bucket_count_sum:
  "sum_list (map (bucket_count emps) bucket_labels) = int (length emps)"
  using buckets_partition [of emps]
  by (simp add: bucket_labels_def bucket_count_simps)

text \<open>
  C4. For every employee collection, \<open>get_salary_range_distribution\<close> returns the five
  labels in their fixed order, each with the number of employees whose salary falls in
  that bucket when the thresholds are tried in order (zero for an empty bucket), and the
  five counts add up to the number of employees.
\<close>

theorem get_salary_range_distribution_buckets:
  "get_salary_range_distribution emps
     = Inr (map (\<lambda>l. (l, bucket_count emps l)) bucket_labels) \<and>
   sum_list (map (bucket_count emps) bucket_labels) = int (length emps)"
  using salary_distribution_eq bucket_count_sum by simp

theorem get_salary_range_distribution_example:
  "get_salary_range_distribution
     [Employee ''EMP0001'' ''A'' ''HR'' 40000 ''2024-01-01'' 7,
      Employee ''EMP0002'' ''B'' ''HR'' 60000 ''2024-01-02'' 9,
      Employee ''EMP0003'' ''C'' ''Sales'' 80000 ''2024-01-03'' 7,
      Employee ''EMP0004'' ''D'' ''Sales'' 95000 ''2024-01-04'' 8,
      Employee ''EMP0005'' ''E'' ''Finance'' 120000 ''2024-01-05'' 6]
   = Inr [(''0-50k'', 1), (''50k-70k'', 1), (''70k-90k'', 1), (''90k-100k'', 1), (''100k+'', 1)]"
  using get_salary_range_distribution_buckets
    [of "[Employee ''EMP0001'' ''A'' ''HR'' 40000 ''2024-01-01'' 7,
      Employee ''EMP0002'' ''B'' ''HR'' 60000 ''2024-01-02'' 9,
      Employee ''EMP0003'' ''C'' ''Sales'' 80000 ''2024-01-03'' 7,
      Employee ''EMP0004'' ''D'' ''Sales'' 95000 ''2024-01-04'' 8,
      Employee ''EMP0005'' ''E'' ''Finance'' 120000 ''2024-01-05'' 6]"]
  by (simp add: bucket_labels_def bucket_count_def salary_bucket_def Employee_def)



subsection \<open>Department statistics\<close>

lemma dept_aggregate_step_eq:
  "dept_aggregate_step d e =
     Inr (dict_set d (department e)
       ((case map_of d (department e) of None \<Rightarrow> new_dept_stats | Some st \<Rightarrow> st)
          \<lparr>count' := count' (case map_of d (department e) of None \<Rightarrow> new_dept_stats | Some st \<Rightarrow> st) + 1,
           total_salary := fadd (total_salary (case map_of d (department e) of None \<Rightarrow> new_dept_stats | Some st \<Rightarrow> st)) (salary e),
           total_performance := fadd (total_performance (case map_of d (department e) of None \<Rightarrow> new_dept_stats | Some st \<Rightarrow> st)) (performance_score e),
           employees := employees (case map_of d (department e) of None \<Rightarrow> new_dept_stats | Some st \<Rightarrow> st) @ [e]\<rparr>))"
proof (cases "map_of d (department e)")
  case None
  then have nc: "\<not> dict_contains d (department e)" by (simp add: dict_contains_iff)
  show ?thesis
    by (simp add: dept_aggregate_step_def Let_def nc None bind_def
        dict_modify_dict_set dict_set_twice)
next
  case (Some st)
  then have c: "dict_contains d (department e)" by (simp add: dict_contains_iff)
  have "d = dict_set d (department e) st"
    using Some by (induction d) (auto split: if_splits)
  then obtain d0 where d0: "d = dict_set d0 (department e) st" ..
  show ?thesis
    unfolding dept_aggregate_step_def Let_def
    by (simp add: c Some bind_def)
       (simp add: d0 dict_modify_dict_set dict_set_twice bind_def)
qed

lemma dept_average_step_eq:
  assumes "map_of d k = Some st" and "1 \<le> count' st"
  shows "dept_average_step d k =
           Inr (dict_set d k
             (st\<lparr>avg_salary := Some (fl (total_salary st / float_of_int (count' st))),
                avg_performance :=
                  Some (fl (total_performance st / float_of_int (count' st)))\<rparr>))"
proof -
  have nz: "float_of_int (count' st) \<noteq> 0"
    using assms(2) by (rule float_of_int_pos)
  show ?thesis
    unfolding dept_average_step_def
    by (simp add: dict_get_def assms(1) bind_def Let_def py_truediv_def nz
        dict_modify_present [OF assms(1)] map_of_dict_set dict_modify_dict_set)
qed

lemma groups_inv_step:
  assumes "groups_inv pre d"
  shows "\<exists>d'. dept_aggregate_step d e = Inr d' \<and> groups_inv (pre @ [e]) d'"
proof -
  let ?k = "department e"
  let ?old = "case map_of d ?k of None \<Rightarrow> new_dept_stats | Some st \<Rightarrow> st"
  let ?new = "?old\<lparr>count' := count' ?old + 1,
        total_salary := fadd (total_salary ?old) (salary e),
        total_performance := fadd (total_performance ?old) (performance_score e),
        employees := employees ?old @ [e]\<rparr>"
  let ?d = "dict_set d ?k ?new"
  from assms have dist: "distinct (map fst d)"
    and keys: "fst ` set d = department ` set pre"
    and ent: "\<And>k st. (k, st) \<in> set d \<Longrightarrow>
        count' st = int (length (employees st)) \<and>
        employees st = filter (\<lambda>e. department e = k) pre"
    by (auto simp add: groups_inv_def)
  have st0: "count' ?old = int (length (employees ?old)) \<and>
             employees ?old = filter (\<lambda>e. department e = ?k) pre"
  proof (cases "map_of d ?k")
    case None
    then have "?k \<notin> fst ` set d" by (simp add: map_of_eq_None_iff)
    with keys have "?k \<notin> department ` set pre" by simp
    then have "filter (\<lambda>e. department e = ?k) pre = []"
      by (auto simp add: filter_empty_conv image_iff)
    with None show ?thesis by (simp add: new_dept_stats_def)
  next
    case (Some st)
    then have "(?k, st) \<in> set d" by (rule map_of_SomeD)
    from ent [OF this] Some show ?thesis by simp
  qed
  have "groups_inv (pre @ [e]) ?d"
    unfolding groups_inv_def
  proof (intro conjI ballI)
    show "distinct (map fst ?d)" using dist by (rule distinct_dict_set)
    show "fst ` set ?d = department ` set (pre @ [e])"
      using keys by (simp add: keys_dict_set)
    fix g assume g: "g \<in> set ?d"
    obtain k' st' where g': "g = (k', st')" by (cases g)
    from set_dict_set_distinct [OF dist g [unfolded g']]
    consider "k' = ?k" "st' = ?new" | "k' \<noteq> ?k" "(k', st') \<in> set d" by blast
    then show "case g of (k, st) \<Rightarrow>
        count' st = int (length (employees st)) \<and>
        employees st = filter (\<lambda>e. department e = k) (pre @ [e])"
    proof cases
      case 1
      with st0 show ?thesis by (simp add: g')
    next
      case 2
      with ent [OF 2(2)] show ?thesis by (auto simp add: g')
    qed
  qed
  then show ?thesis by (auto simp add: dept_aggregate_step_eq)
qed

lemma dept_aggregate_groups:
  "\<exists>d. dept_aggregate emps = Inr d \<and> groups_inv emps d"
proof -
  have "\<exists>d. for_each dept_aggregate_step [] emps = Inr d \<and> groups_inv ([] @ emps) d"
  proof (rule for_each_invariant [where P = groups_inv])
    show "groups_inv [] []" by (simp add: groups_inv_def)
  next
    fix pre x s
    assume "groups_inv pre s"
    then show "\<exists>s'. dept_aggregate_step s x = Inr s' \<and> groups_inv (pre @ [x]) s'"
      by (rule groups_inv_step)
  qed
  then show ?thesis by (simp add: dept_aggregate_def)
qed

lemma groups_inv_count:
  assumes "groups_inv emps d" and "(k, st) \<in> set d"
  shows "1 \<le> count' st"
proof -
  from assms have c: "count' st = int (length (employees st))"
    and f: "employees st = filter (\<lambda>e. department e = k) emps"
    and "k \<in> department ` set emps"
    by (force simp add: groups_inv_def)+
  then obtain e where "e \<in> set emps" "department e = k" by auto
  then have "e \<in> set (employees st)" by (simp add: f)
  then have "0 < length (employees st)" by (auto simp add: length_greater_0_conv)
  with c show ?thesis by linarith
qed

lemma averages_inv_step:
  assumes inv: "averages_inv emps pre d" and x: "x \<in> department ` set emps"
  shows "\<exists>d'. dept_average_step d x = Inr d' \<and> averages_inv emps (pre @ [x]) d'"
proof -
  from inv have g: "groups_inv emps d" by (simp add: averages_inv_def)
  then have dist: "distinct (map fst d)" and keys: "fst ` set d = department ` set emps"
    by (simp_all add: groups_inv_def)
  from x keys obtain st where mem: "(x, st) \<in> set d" by force
  with dist have m: "map_of d x = Some st" by simp
  from g mem have c: "1 \<le> count' st" by (rule groups_inv_count)
  let ?new = "st\<lparr>avg_salary := Some (fl (total_salary st / float_of_int (count' st))),
      avg_performance := Some (fl (total_performance st / float_of_int (count' st)))\<rparr>"
  let ?d = "dict_set d x ?new"
  have eq: "dept_average_step d x = Inr ?d" using m c by (rule dept_average_step_eq)
  have ent: "(k' = x \<and> st' = ?new) \<or> (k' \<noteq> x \<and> (k', st') \<in> set d)"
    if "(k', st') \<in> set ?d" for k' st'
    using dist that by (rule set_dict_set_distinct)
  have g': "groups_inv emps ?d"
    unfolding groups_inv_def
  proof (intro conjI ballI)
    show "distinct (map fst ?d)" using dist by (rule distinct_dict_set)
    show "fst ` set ?d = department ` set emps"
      using keys x by (auto simp add: keys_dict_set)
    fix h assume h: "h \<in> set ?d"
    obtain k' st' where h': "h = (k', st')" by (cases h)
    from ent [OF h [unfolded h']] g mem
    show "case h of (k, st) \<Rightarrow>
        count' st = int (length (employees st)) \<and>
        employees st = filter (\<lambda>e. department e = k) emps"
      by (auto simp add: h' groups_inv_def)
  qed
  have "averages_inv emps (pre @ [x]) ?d"
    unfolding averages_inv_def
  proof (intro conjI ballI)
    show "groups_inv emps ?d" by (rule g')
    fix h assume h: "h \<in> set ?d"
    obtain k' st' where h': "h = (k', st')" by (cases h)
    from ent [OF h [unfolded h']] inv
    show "case h of (k, st) \<Rightarrow> k \<in> set (pre @ [x]) \<longrightarrow>
        avg_salary st = Some (fl (total_salary st / float_of_int (count' st))) \<and>
        avg_performance st = Some (fl (total_performance st / float_of_int (count' st)))"
      by (auto simp add: h' averages_inv_def)
  qed
  with eq show ?thesis by simp
qed

lemma department_statistics_averages:
  "\<exists>d. get_department_statistics emps = Inr d \<and> averages_inv emps (map fst d) d"
proof -
  from dept_aggregate_groups [of emps]
  obtain d0 where d0: "dept_aggregate emps = Inr d0" and g0: "groups_inv emps d0" by blast
  have "\<exists>d. for_each dept_average_step d0 (map fst d0) = Inr d \<and>
            averages_inv emps ([] @ map fst d0) d"
  proof (rule for_each_invariant [where P = "averages_inv emps"])
    show "averages_inv emps [] d0" using g0 by (simp add: averages_inv_def)
  next
    fix pre x s
    assume "averages_inv emps pre s" and "x \<in> set (map fst d0)"
    moreover from g0 have "fst ` set d0 = department ` set emps" by (simp add: groups_inv_def)
    ultimately show "\<exists>s'. dept_average_step s x = Inr s' \<and> averages_inv emps (pre @ [x]) s'"
      by (intro averages_inv_step) simp_all
  qed
  then obtain d where d: "for_each dept_average_step d0 (map fst d0) = Inr d"
    and a: "averages_inv emps (map fst d0) d" by auto
  from a have "fst ` set d = department ` set emps"
    by (simp add: averages_inv_def groups_inv_def)
  with g0 have "set (map fst d) = set (map fst d0)" by (simp add: groups_inv_def)
  with a have "averages_inv emps (map fst d) d" by (simp add: averages_inv_def)
  with d d0 show ?thesis by (simp add: get_department_statistics_def bind_def)
qed

text \<open>
  C7. For every employee collection, every department group that
  \<open>get_department_statistics\<close> builds has a count of at least one, in the dictionary the
  first loop leaves as in the one returned; so neither division of the second loop
  divides by zero: the function returns, with both averages stored in every group.
\<close>

theorem department_groups_count_positive:
  "\<exists>d0 d. dept_aggregate emps = Inr d0 \<and>
          (\<forall>(k, st) \<in> set d0. 1 \<le> count' st) \<and>
          get_department_statistics emps = Inr d \<and>
          (\<forall>(k, st) \<in> set d.
             1 \<le> count' st \<and>
             avg_salary st = Some (fl (total_salary st / float_of_int (count' st))) \<and>
             avg_performance st
               = Some (fl (total_performance st / float_of_int (count' st))))"
proof -
  from dept_aggregate_groups [of emps]
  obtain d0 where d0: "dept_aggregate emps = Inr d0" and g0: "groups_inv emps d0" by blast
  from department_statistics_averages [of emps]
  obtain d where d: "get_department_statistics emps = Inr d"
    and a: "averages_inv emps (map fst d) d" by blast
  from a have g: "groups_inv emps d" by (simp add: averages_inv_def)
  have "\<forall>(k, st) \<in> set d0. 1 \<le> count' st"
    using groups_inv_count [OF g0] by auto
  moreover have "\<forall>(k, st) \<in> set d.
             1 \<le> count' st \<and>
             avg_salary st = Some (fl (total_salary st / float_of_int (count' st))) \<and>
             avg_performance st
               = Some (fl (total_performance st / float_of_int (count' st)))"
    using groups_inv_count [OF g] a by (force simp add: averages_inv_def)
  ultimately show ?thesis using d0 d by blast
qed

lemma department_statistics_example:
  "get_department_statistics
     [Employee ''EMP0001'' ''A'' ''HR'' 50000 ''2024-01-01'' 7,
      Employee ''EMP0002'' ''B'' ''Sales'' 70000 ''2024-01-02'' 9,
      Employee ''EMP0003'' ''C'' ''HR'' 60000 ''2024-01-03'' 9]
   = Inr [(''HR'', \<lparr>count' = 2, total_salary = 110000, total_performance = 16,
            employees = [Employee ''EMP0001'' ''A'' ''HR'' 50000 ''2024-01-01'' 7,
                         Employee ''EMP0003'' ''C'' ''HR'' 60000 ''2024-01-03'' 9],
            avg_salary = Some 55000, avg_performance = Some 8\<rparr>),
          (''Sales'', \<lparr>count' = 1, total_salary = 70000, total_performance = 9,
            employees = [Employee ''EMP0002'' ''B'' ''Sales'' 70000 ''2024-01-02'' 9],
            avg_salary = Some 70000, avg_performance = Some 9\<rparr>)]"
  by code_simp

theorem department_groups_count_positive_witness:
  "\<exists>d. get_department_statistics
         [Employee ''EMP0001'' ''A'' ''HR'' 50000 ''2024-01-01'' 7,
          Employee ''EMP0002'' ''B'' ''Sales'' 70000 ''2024-01-02'' 9,
          Employee ''EMP0003'' ''C'' ''HR'' 60000 ''2024-01-03'' 9] = Inr d \<and>
       map (\<lambda>(k, st). (k, count' st)) d = [(''HR'', 2), (''Sales'', 1)] \<and>
       list_all (\<lambda>(k, st). 1 \<le> count' st) d"
proof -
  let ?es = "[Employee ''EMP0001'' ''A'' ''HR'' 50000 ''2024-01-01'' 7,
          Employee ''EMP0002'' ''B'' ''Sales'' 70000 ''2024-01-02'' 9,
          Employee ''EMP0003'' ''C'' ''HR'' 60000 ''2024-01-03'' 9]"
  from department_groups_count_positive [of ?es]
  obtain d where d: "get_department_statistics ?es = Inr d"
    and c: "\<forall>(k, st) \<in> set d. 1 \<le> count' st" by blast
  from c have "list_all (\<lambda>(k, st). 1 \<le> count' st) d"
    by (simp add: list_all_iff)
  moreover from d have "map (\<lambda>(k, st). (k, count' st)) d = [(''HR'', 2), (''Sales'', 1)]"
    by (auto simp add: department_statistics_example)
  ultimately show ?thesis using d by (intro exI [where x = d]) simp
qed

subsection \<open>Decimal digits\<close>

lemma digit_value_digit_char:
  assumes "0 \<le> d" "d < 10"
  shows "digit_value (digit_char d) = nat d"
proof -
  from assms have "d = 0 \<or> d = 1 \<or> d = 2 \<or> d = 3 \<or> d = 4 \<or> d = 5 \<or> d = 6
      \<or> d = 7 \<or> d = 8 \<or> d = 9"
    by presburger
  then show ?thesis
    by (elim disjE) (simp_all add: digit_value_def digit_char_def)
qed

lemma decimal_value_append:
  "decimal_value (s @ [c]) = 10 * decimal_value s + digit_value c"
  by (simp add: decimal_value_def)

lemma decimal_value_digits: "0 \<le> n \<Longrightarrow> decimal_value (digits n) = nat n"
proof (induction n rule: digits.induct)
  case (1 n)
  show ?case
  proof (cases "n < 10")
    case True
    with "1.prems" show ?thesis
      by (simp add: digits.simps [of n] decimal_value_def digit_value_digit_char)
  next
    case False
    with "1" have "decimal_value (digits (n div 10)) = nat (n div 10)" by simp
    moreover have "digit_value (digit_char (n mod 10)) = nat (n mod 10)"
      by (rule digit_value_digit_char) simp_all
    moreover have "10 * nat (n div 10) + nat (n mod 10) = nat n"
      using "1.prems" by (simp add: nat_div_distrib nat_mod_distrib)
    ultimately show ?thesis
      using False by (simp add: digits.simps [of n] decimal_value_append)
  qed
qed

lemma decimal_value_zeros: "decimal_value (replicate k CHR ''0'' @ s) = decimal_value s"
proof -
  have "foldl (\<lambda>a c. 10 * a + digit_value c) 0 (replicate k CHR ''0'') = 0"
    by (induction k) (simp_all add: digit_value_def)
  then show ?thesis by (simp add: decimal_value_def)
qed

lemma decimal_value_format: "0 \<le> i \<Longrightarrow> decimal_value (format_int_zero_pad w i) = nat i"
  by (simp add: format_int_zero_pad_def decimal_value_zeros decimal_value_digits)

lemma emp_id_inj:
  assumes "0 \<le> i" "0 \<le> j"
    and "''EMP'' @ format_int_zero_pad 4 i = ''EMP'' @ format_int_zero_pad 4 j"
  shows "i = j"
proof -
  from assms(3) have "format_int_zero_pad 4 i = format_int_zero_pad 4 j" by simp
  then have "decimal_value (format_int_zero_pad 4 i) = decimal_value (format_int_zero_pad 4 j)"
    by simp
  with assms(1,2) show ?thesis by (simp add: decimal_value_format)
qed

lemma length_digits_pos: "0 < length (digits n)"
  by (subst digits.simps) simp

lemma length_format_int_zero_pad: "0 \<le> i \<Longrightarrow> w \<le> length (format_int_zero_pad w i)"
  by (simp add: format_int_zero_pad_def)

subsection \<open>The generator\<close>

lemma base_salaries_departments:
  assumes "i < length DEPARTMENTS"
  shows "\<exists>b. dict_get base_salaries (DEPARTMENTS ! i) = Inr b \<and> 50000 \<le> b"
proof -
  from assms have "i < 5" by (simp add: DEPARTMENTS_def)
  then have "i = 0 \<or> i = 1 \<or> i = 2 \<or> i = 3 \<or> i = 4" by presburger
  then show ?thesis
    by (elim disjE) (simp_all add: DEPARTMENTS_def base_salaries_def dict_get_def)
qed

lemma generate_employee_valid:
  assumes "valid_draws dr"
  shows "\<exists>b. dict_get base_salaries (DEPARTMENTS ! choice_dept dr) = Inr b \<and>
     generate_employee date_str dr i =
       Inr (Employee (''EMP'' @ format_int_zero_pad 4 i)
              (FIRST_NAMES ! choice_first dr @ '' '' @ LAST_NAMES ! choice_last dr)
              (DEPARTMENTS ! choice_dept dr)
              (of_int (max (b + randint_variation dr) 30000))
              (date_str (randint_days dr))
              (py_round (uniform_score dr) 1))"
proof -
  from assms have "choice_dept dr < length DEPARTMENTS" by (simp add: valid_draws_def)
  from base_salaries_departments [OF this]
  obtain b where b: "dict_get base_salaries (DEPARTMENTS ! choice_dept dr) = Inr b" by blast
  with assms show ?thesis
    by (simp add: generate_employee_def valid_draws_def random_choice_def bind_def Let_def)
qed

lemma for_each_collect:
  assumes "\<And>x. x \<in> set xs \<Longrightarrow> \<exists>y. f x = Inr y"
  shows "\<exists>ys. for_each (\<lambda>acc x. bind (f x) (\<lambda>y. Inr (acc @ [y]))) acc xs = Inr (acc @ ys) \<and>
              map f xs = map Inr ys"
  using assms
proof (induction xs arbitrary: acc)
  case Nil
  then show ?case by simp
next
  case (Cons x xs)
  from Cons.prems [of x] obtain y where y: "f x = Inr y" by auto
  from Cons.IH [of "acc @ [y]"] Cons.prems
  obtain ys where "for_each (\<lambda>acc x. bind (f x) (\<lambda>y. Inr (acc @ [y]))) (acc @ [y]) xs
        = Inr ((acc @ [y]) @ ys)" and "map f xs = map Inr ys"
    by auto
  then have "for_each (\<lambda>acc x. bind (f x) (\<lambda>y. Inr (acc @ [y]))) acc (x # xs)
        = Inr (acc @ (y # ys)) \<and> map f (x # xs) = map Inr (y # ys)"
    by (simp add: y bind_def)
  then show ?case by blast
qed

lemma generate_employees_collect:
  assumes "\<And>i. valid_draws (rnd i)"
  shows "\<exists>emps. generate_employees date_str rnd n = Inr emps \<and>
           map (\<lambda>i. generate_employee date_str (rnd i) i) [1..n] = map Inr emps"
proof -
  have "\<exists>y. generate_employee date_str (rnd i) i = Inr y" for i
    using generate_employee_valid [OF assms, of i date_str i] by blast
  from for_each_collect [where f = "\<lambda>i. generate_employee date_str (rnd i) i" and acc = "[]", OF this]
  show ?thesis by (simp add: generate_employees_def)
qed

lemma generate_employees_nth:
  assumes "\<And>i. valid_draws (rnd i)"
    and "generate_employees date_str rnd n = Inr emps"
  shows "length emps = nat n"
    and "j < nat n \<Longrightarrow>
           generate_employee date_str (rnd (int j + 1)) (int j + 1) = Inr (emps ! j)"
proof -
  from generate_employees_collect [of rnd date_str n, OF assms(1)] assms(2)
  have m: "map (\<lambda>i. generate_employee date_str (rnd i) i) [1..n] = map Inr emps" by simp
  from arg_cong [OF m, of length] show len: "length emps = nat n" by simp
  assume j: "j < nat n"
  have "map (\<lambda>i. generate_employee date_str (rnd i) i) [1..n] ! j = map Inr emps ! j"
    by (simp only: m)
  with j len show "generate_employee date_str (rnd (int j + 1)) (int j + 1) = Inr (emps ! j)"
    by (simp add: add.commute)
qed

lemma distinct_emp_ids:
  "distinct (map (\<lambda>i. ''EMP'' @ format_int_zero_pad 4 i) [1..n])"
proof -
  have "inj_on (\<lambda>i. ''EMP'' @ format_int_zero_pad 4 i) (set [1..n])"
    by (rule inj_onI) (auto intro: emp_id_inj)
  then show ?thesis by (simp add: distinct_map)
qed

lemma py_round_one_decimal:
  assumes "5 \<le> u" "u \<le> 10"
  shows "\<exists>k. 50 \<le> k \<and> k \<le> 100 \<and> py_round u 1 = fl (of_int k / 10) \<and>
             5 \<le> py_round u 1 \<and> py_round u 1 \<le> 10"
proof -
  let ?k = "round_half_even (u * 10)"
  have "round_half_even (of_int 50) \<le> ?k" using assms(1) by (intro rhe_mono) simp
  then have lo: "50 \<le> ?k" by (simp only: rhe_of_int)
  have "?k \<le> round_half_even (of_int 100)" using assms(2) by (intro rhe_mono) simp
  then have hi: "?k \<le> 100" by (simp only: rhe_of_int)
  have five: "fl 5 = 5" and ten: "fl 10 = 10" by code_simp+
  from lo have "(of_int 50 :: rat) \<le> of_int ?k" by (simp only: of_int_le_iff)
  then have "fl 5 \<le> fl (of_int ?k / 10)" by (intro fl_mono) simp
  moreover from hi have "(of_int ?k :: rat) \<le> of_int 100" by (simp only: of_int_le_iff)
  then have "fl (of_int ?k / 10) \<le> fl 10" by (intro fl_mono) simp
  ultimately show ?thesis
    using lo hi by (intro exI [where x = ?k]) (simp add: py_round_def five ten)
qed

text \<open>
  C5. For every \<open>n \<ge> 0\<close>, whatever the random source draws within its ranges,
  \<open>generate_employees(n)\<close> returns a list of exactly \<open>n\<close> records; their \<open>emp_id\<close> values
  are, in order, \<open>EMP\<close> followed by \<open>i\<close> zero padded to four digits for \<open>i\<close> from 1 to
  \<open>n\<close>, and they are distinct; for \<open>n = 0\<close> the list is empty.
\<close>

theorem generate_employees_emp_ids:
  assumes "0 \<le> n" and "\<And>i. valid_draws (rnd i)"
  shows "\<exists>emps. generate_employees date_str rnd n = Inr emps \<and>
           length emps = nat n \<and>
           map emp_id emps = map (\<lambda>i. ''EMP'' @ format_int_zero_pad 4 i) [1..n] \<and>
           distinct (map emp_id emps) \<and>
           (n = 0 \<longrightarrow> emps = [])"
proof -
  from generate_employees_collect [of rnd date_str n, OF assms(2)]
  obtain emps where g: "generate_employees date_str rnd n = Inr emps"
    and m: "map (\<lambda>i. generate_employee date_str (rnd i) i) [1..n] = map Inr emps" by blast
  from arg_cong [OF m, of length] have len: "length emps = nat n" by simp
  have ids: "map emp_id emps = map (\<lambda>i. ''EMP'' @ format_int_zero_pad 4 i) [1..n]"
  proof (rule nth_equalityI)
    show "length (map emp_id emps) = length (map (\<lambda>i. ''EMP'' @ format_int_zero_pad 4 i) [1..n])"
      using len by simp
    fix j assume "j < length (map emp_id emps)"
    with len have j: "j < nat n" by simp
    from generate_employees_nth(2) [OF assms(2) g j]
    have e: "generate_employee date_str (rnd (int j + 1)) (int j + 1) = Inr (emps ! j)" .
    from generate_employee_valid [OF assms(2), of "int j + 1" date_str "int j + 1"] e
    have "emp_id (emps ! j) = ''EMP'' @ format_int_zero_pad 4 (int j + 1)"
      by (auto simp add: Employee_def)
    with j len show "map emp_id emps ! j = map (\<lambda>i. ''EMP'' @ format_int_zero_pad 4 i) [1..n] ! j"
      by (simp add: add.commute)
  qed
  have "distinct (map emp_id emps)" by (simp only: ids distinct_emp_ids)
  moreover have "n = 0 \<longrightarrow> emps = []" using len by auto
  ultimately show ?thesis using g len ids by blast
qed

theorem generate_employees_emp_ids_witness:
  "(0::int) \<le> 3 \<and>
   valid_draws \<lparr>choice_first = 1, choice_last = 0, choice_dept = 3,
      randint_variation = - 2500, randint_days = 30, uniform_score = 29 / 4\<rparr> \<and>
   (\<exists>emps. generate_employees (\<lambda>d. ''2026-01-01'')
        (\<lambda>i. \<lparr>choice_first = 1, choice_last = 0, choice_dept = 3,
           randint_variation = - 2500, randint_days = 30, uniform_score = 29 / 4\<rparr>) 3
        = Inr emps \<and>
      map emp_id emps = [''EMP0001'', ''EMP0002'', ''EMP0003''])"
proof -
  let ?dr = "\<lparr>choice_first = 1, choice_last = 0, choice_dept = 3,
      randint_variation = - 2500, randint_days = 30, uniform_score = 29 / 4\<rparr>"
  have v: "valid_draws ?dr"
    by (simp add: valid_draws_def FIRST_NAMES_def LAST_NAMES_def DEPARTMENTS_def)
  have h: "(0::int) \<le> 3" by simp
  have "map (\<lambda>i. ''EMP'' @ format_int_zero_pad 4 i) [1..3]
          = [''EMP0001'', ''EMP0002'', ''EMP0003'']"
    by code_simp
  with generate_employees_emp_ids [OF h, of "\<lambda>i. ?dr" "\<lambda>d. ''2026-01-01''", OF v] v
  show ?thesis by auto
qed

text \<open>
  C6. Whatever the random source draws within its ranges, every record that
  \<open>generate_employees\<close> produces has a salary of at least 30000, namely the larger of
  30000 and the base salary of its department plus a variation between -10000 and 30000,
  and a score between 5.0 and 10.0 that is a number of one decimal place, as a float.
\<close>

theorem generate_employees_salary_score:
  assumes "\<And>i. valid_draws (rnd i)"
    and "generate_employees date_str rnd n = Inr emps"
    and "e \<in> set emps"
  shows "30000 \<le> salary e \<and> 5 \<le> performance_score e \<and> performance_score e \<le> 10 \<and>
         (\<exists>base variation k.
            dict_get base_salaries (department e) = Inr base \<and>
            - 10000 \<le> variation \<and> variation \<le> 30000 \<and>
            salary e = of_int (max (base + variation) 30000) \<and>
            performance_score e = fl (of_int k / 10))"
proof -
  from assms(3) obtain j where j: "j < length emps" and e: "e = emps ! j"
    by (auto simp add: in_set_conv_nth)
  from generate_employees_nth(1) [OF assms(1,2)] j have jn: "j < nat n" by simp
  let ?dr = "rnd (int j + 1)"
  have v: "valid_draws ?dr" by (rule assms(1))
  from generate_employees_nth(2) [OF assms(1,2) jn] e
  have g: "generate_employee date_str ?dr (int j + 1) = Inr e" by simp
  from generate_employee_valid [OF v, of date_str "int j + 1"] g
  obtain b where b: "dict_get base_salaries (DEPARTMENTS ! choice_dept ?dr) = Inr b"
    and dep: "department e = DEPARTMENTS ! choice_dept ?dr"
    and sal: "salary e = of_int (max (b + randint_variation ?dr) 30000)"
    and ps: "performance_score e = py_round (uniform_score ?dr) 1"
    by (auto simp add: Employee_def)
  from v have u: "5 \<le> uniform_score ?dr" "uniform_score ?dr \<le> 10"
    and var: "- 10000 \<le> randint_variation ?dr" "randint_variation ?dr \<le> 30000"
    by (simp_all add: valid_draws_def)
  from py_round_one_decimal [OF u] obtain k
    where k: "py_round (uniform_score ?dr) 1 = fl (of_int k / 10)"
      and r: "5 \<le> py_round (uniform_score ?dr) 1" "py_round (uniform_score ?dr) 1 \<le> 10"
    by blast
  have "(30000 :: rat) \<le> of_int (max (b + randint_variation ?dr) 30000)"
    by (simp add: le_max_iff_disj)
  with sal have s30: "30000 \<le> salary e" by simp
  show ?thesis
    using s30 r ps k b dep var sal by (metis)
qed

theorem generate_employees_salary_score_witness:
  "valid_draws \<lparr>choice_first = 1, choice_last = 0, choice_dept = 3,
      randint_variation = - 2500, randint_days = 30, uniform_score = 29 / 4\<rparr> \<and>
   generate_employees (\<lambda>d. ''2026-01-01'')
        (\<lambda>i. \<lparr>choice_first = 1, choice_last = 0, choice_dept = 3,
           randint_variation = - 2500, randint_days = 30, uniform_score = 29 / 4\<rparr>) 1
     = Inr [Employee ''EMP0001'' ''Fatima Khan'' ''HR'' 47500 ''2026-01-01''
              (py_round (29 / 4) 1)] \<and>
   5 \<le> py_round (29 / 4) 1 \<and> py_round (29 / 4) 1 \<le> 10"
proof -
  let ?dr = "\<lparr>choice_first = 1, choice_last = 0, choice_dept = 3,
      randint_variation = - 2500, randint_days = 30, uniform_score = 29 / 4\<rparr>"
  let ?e = "Employee ''EMP0001'' ''Fatima Khan'' ''HR'' 47500 ''2026-01-01''
              (py_round (29 / 4) 1)"
  have v: "valid_draws ?dr"
    by (simp add: valid_draws_def FIRST_NAMES_def LAST_NAMES_def DEPARTMENTS_def)
  have g: "generate_employees (\<lambda>d. ''2026-01-01'') (\<lambda>i. ?dr) 1 = Inr [?e]"
    by code_simp
  have "?e \<in> set [?e]" by simp
  from generate_employees_salary_score
    [of "\<lambda>i. ?dr" "\<lambda>d. ''2026-01-01''" 1 "[?e]" ?e, OF v g this]
  have "5 \<le> performance_score ?e \<and> performance_score ?e \<le> 10" by blast
  then have "5 \<le> py_round (29 / 4) 1 \<and> py_round (29 / 4) 1 \<le> 10"
    by (simp add: Employee_def)
  with v g show ?thesis by blast
qed

subsection \<open>The report\<close>

lemma for_each_collect_total:
  assumes "\<And>x. x \<in> set xs \<Longrightarrow> f x = Inr (g x)"
  shows "for_each (\<lambda>acc x. bind (f x) (\<lambda>y. Inr (acc @ [y]))) acc xs = Inr (acc @ map g xs)"
  using assms by (induction xs arbitrary: acc) (simp_all add: bind_def)

lemma for_each_extend_total:
  assumes "\<And>x. x \<in> set xs \<Longrightarrow> f x = Inr (g x)"
  shows "for_each (\<lambda>acc x. bind (f x) (\<lambda>ys. Inr (acc @ ys))) acc xs
           = Inr (acc @ concat (map g xs))"
  using assms by (induction xs arbitrary: acc) (simp_all add: bind_def)

lemma set_py_sorted: "set (py_sorted key r xs) = set xs"
  by (simp add: py_sorted_def)

lemma department_lines_returns: "\<exists>ls. department_lines emps = Inr ls"
proof -
  from department_statistics_averages [of emps]
  obtain d where d: "get_department_statistics emps = Inr d"
    and a: "averages_inv emps (map fst d) d" by blast
  have "\<exists>ls. department_entry_lines item = Inr ls" if "item \<in> set d" for item
  proof -
    obtain k st where item: "item = (k, st)" by (cases item)
    with that a have "avg_salary st \<noteq> None" "avg_performance st \<noteq> None"
      by (force simp add: averages_inv_def)+
    then show ?thesis
      by (auto simp add: department_entry_lines_def item bind_def)
  qed
  then have "\<forall>item \<in> set d. \<exists>ls. department_entry_lines item = Inr ls" by blast
  then obtain g where g: "\<And>item. item \<in> set d \<Longrightarrow> department_entry_lines item = Inr (g item)"
    by metis
  have "for_each (\<lambda>lines item. bind (department_entry_lines item) (\<lambda>ls. Inr (lines @ ls)))
          [''DEPARTMENT STATISTICS:'', replicate 80 CHR ''-''] (py_sorted fst False d)
        = Inr ([''DEPARTMENT STATISTICS:'', replicate 80 CHR ''-'']
               @ concat (map g (py_sorted fst False d)))"
    by (rule for_each_extend_total) (simp add: set_py_sorted g)
  then show ?thesis
    by (simp add: department_lines_def d bind_def)
qed

lemma percentage_nonneg:
  assumes "0 \<le> c"
  shows "0 \<le> fl (fl (of_int c / of_int (int n)) * 100)"
proof -
  have "0 \<le> fl (of_int c / of_int (int n))" using assms by (intro fl_nonneg) simp
  then show ?thesis by (intro fl_nonneg) simp
qed

lemma bucket_count_nonneg: "0 \<le> bucket_count emps l"
  by (simp add: bucket_count_def)

lemma distribution_row_eq:
  assumes "emps \<noteq> []"
  shows "distribution_row emps (l, bucket_count emps l) = Inr (float_bucket_row emps l)"
proof -
  let ?c = "bucket_count emps l"
  let ?p = "fl (fl (of_int ?c / of_int (int (length emps))) * 100)"
  have p0: "0 \<le> ?p" using bucket_count_nonneg by (rule percentage_nonneg)
  then have h0: "0 \<le> fl (?p / 2)" by (intro fl_nonneg) simp
  have "is_double ?p" by (rule is_double_fl)
  then have "\<lfloor>fl (?p / 2)\<rfloor> = \<lfloor>?p / 2\<rfloor>" using p0 by (rule floor_fl_half)
  with h0 have "py_int (fl (?p / 2)) = \<lfloor>?p / 2\<rfloor>" by (simp add: py_int_def)
  then show ?thesis
    using assms
    by (simp add: distribution_row_def float_bucket_row_def py_truediv_int_def py_truediv_def
        float_of_int_small fmul_def bind_def Let_def str_repeat_def)
qed

lemma distribution_rows_eq:
  assumes "emps \<noteq> []"
  shows "distribution_rows emps = Inr (map (float_bucket_row emps) bucket_labels)"
proof -
  have "for_each (\<lambda>rows item. bind (distribution_row emps item) (\<lambda>row. Inr (rows @ [row])))
          [] (map (\<lambda>l. (l, bucket_count emps l)) bucket_labels)
        = Inr ([] @ map (\<lambda>item. float_bucket_row emps (fst item))
                 (map (\<lambda>l. (l, bucket_count emps l)) bucket_labels))"
    by (rule for_each_collect_total) (auto simp add: distribution_row_eq [OF assms])
  then show ?thesis
    by (simp add: distribution_rows_def salary_distribution_eq bind_def comp_def)
qed

lemma distribution_rows_empty: "distribution_rows [] = Inl ZeroDivisionError"
  by (simp add: distribution_rows_def salary_distribution_eq bind_def bucket_labels_def
      distribution_row_def py_truediv_int_def)

lemma py_min_max_returns:
  "xs \<noteq> [] \<Longrightarrow> \<exists>m. py_min xs = Inr m" "xs \<noteq> [] \<Longrightarrow> \<exists>m. py_max xs = Inr m"
  by (cases xs; simp add: py_min_def py_max_def)+

lemma median_index:
  assumes "xs \<noteq> []"
  shows "py_index (py_sorted (\<lambda>x. x) False xs) (int (length xs) div 2)
           = Inr (sort xs ! (length xs div 2))"
proof -
  from assms have "0 < length xs" by simp
  then have "length xs div 2 < length xs" by simp
  then have "int (length xs) div 2 < int (length xs)" by linarith
  moreover have "nat (int (length xs) div 2) = length xs div 2" by (simp add: nat_div_distrib)
  ultimately show ?thesis
    by (simp add: py_index_def py_sorted_def Let_def)
qed

lemma float_of_int_length_nonzero: "xs \<noteq> [] \<Longrightarrow> float_of_int (int (length xs)) \<noteq> 0"
  by (rule float_of_int_pos) (cases xs; simp)

lemma overall_lines_eq:
  assumes "emps \<noteq> []"
  shows "\<exists>l1 l3 l4. overall_lines emps =
    Inr [''OVERALL STATISTICS:'', replicate 80 CHR ''-'', l1,
         ''Median Salary: $''
           @ format_float True 2 (sort (map salary emps) ! (length emps div 2)),
         l3, l4, [], replicate 80 CHR ''='', ''End of Report'', replicate 80 CHR ''='']"
proof -
  from assms have ne: "map salary emps \<noteq> []" "map performance_score emps \<noteq> []" by simp_all
  from py_min_max_returns [OF ne(1)] obtain mn mx
    where mm: "py_min (map salary emps) = Inr mn" "py_max (map salary emps) = Inr mx" by blast
  have nz: "float_of_int (int (length emps)) \<noteq> 0"
    using assms by (rule float_of_int_length_nonzero)
  show ?thesis
    using median_index [OF ne(1)]
    by (simp add: overall_lines_def Let_def py_truediv_def nz bind_def mm)
qed

lemma report_lines_eq:
  assumes "emps \<noteq> []"
  shows "\<exists>dept l1 l3 l4. report_lines now float_str emps =
    Inr (header_lines now emps @ dept @ top_performer_lines float_str emps
         @ ([''SALARY DISTRIBUTION:'', replicate 80 CHR ''-'']
            @ map distribution_line (map (float_bucket_row emps) bucket_labels) @ [[]])
         @ [''OVERALL STATISTICS:'', replicate 80 CHR ''-'', l1,
            ''Median Salary: $''
              @ format_float True 2 (sort (map salary emps) ! (length emps div 2)),
            l3, l4, [], replicate 80 CHR ''='', ''End of Report'', replicate 80 CHR ''=''])"
proof -
  from department_lines_returns [of emps] obtain dept
    where d: "department_lines emps = Inr dept" by blast
  from overall_lines_eq [OF assms] obtain l1 l3 l4 where o: "overall_lines emps =
    Inr [''OVERALL STATISTICS:'', replicate 80 CHR ''-'', l1,
         ''Median Salary: $''
           @ format_float True 2 (sort (map salary emps) ! (length emps div 2)),
         l3, l4, [], replicate 80 CHR ''='', ''End of Report'', replicate 80 CHR ''='']"
    by blast
  show ?thesis
    by (intro exI [where x = dept] exI [where x = l1] exI [where x = l3] exI [where x = l4])
       (simp add: report_lines_def d o distribution_lines_def
          distribution_rows_eq [OF assms] bind_def)
qed

lemma report_lines_empty: "report_lines now float_str [] = Inl ZeroDivisionError"
proof -
  from department_lines_returns [of "[]"] obtain dept
    where d: "department_lines [] = Inr dept" by blast
  show ?thesis
    by (simp add: report_lines_def d distribution_lines_def distribution_rows_empty bind_def)
qed

text \<open>
  C1. For the empty employee collection \<open>generate_report\<close> raises
  \<open>ZeroDivisionError\<close>; for every non-empty collection it returns a report string.
\<close>

theorem generate_report_raises_iff_empty:
  "generate_report now float_str [] = Inl ZeroDivisionError \<and>
   (emps \<noteq> [] \<longrightarrow> (\<exists>report. generate_report now float_str emps = Inr report))"
proof (intro conjI impI)
  show "generate_report now float_str [] = Inl ZeroDivisionError"
    by (simp add: generate_report_def report_lines_empty bind_def)
next
  assume "emps \<noteq> []"
  from report_lines_eq [OF this, of now float_str]
  obtain ls where "report_lines now float_str emps = Inr ls" by blast
  then show "\<exists>report. generate_report now float_str emps = Inr report"
    by (simp add: generate_report_def bind_def)
qed

theorem generate_report_raises_iff_empty_witness:
  "[Employee ''EMP0001'' ''Fatima Khan'' ''HR'' 50000 ''2024-01-01'' (15 / 2)] \<noteq> [] \<and>
   (\<exists>report. generate_report ''2026-01-15 10:00:00'' (\<lambda>x. ''7.5'')
       [Employee ''EMP0001'' ''Fatima Khan'' ''HR'' 50000 ''2024-01-01'' (15 / 2)]
     = Inr report) \<and>
   generate_report ''2026-01-15 10:00:00'' (\<lambda>x. ''7.5'') [] = Inl ZeroDivisionError"
  using generate_report_raises_iff_empty
    [of "''2026-01-15 10:00:00''" "\<lambda>x. ''7.5''"
        "[Employee ''EMP0001'' ''Fatima Khan'' ''HR'' 50000 ''2024-01-01'' (15 / 2)]"]
  by simp

text \<open>
  C3. For every non-empty employee collection, the median salary that the report shows
  is the element at the index \<open>total div 2\<close> of the salaries sorted in ascending order.
\<close>

theorem generate_report_median:
  assumes "emps \<noteq> []"
  shows "\<exists>ys pre post.
           sorted ys \<and> mset ys = mset (map salary emps) \<and>
           report_lines now float_str emps
             = Inr (pre @ [''Median Salary: $''
                             @ format_float True 2 (ys ! (length emps div 2))] @ post) \<and>
           generate_report now float_str emps
             = Inr (join [newline]
                     (pre @ [''Median Salary: $''
                               @ format_float True 2 (ys ! (length emps div 2))] @ post))"
proof -
  let ?ys = "sort (map salary emps)"
  let ?m = "''Median Salary: $'' @ format_float True 2 (?ys ! (length emps div 2))"
  from report_lines_eq [OF assms, of now float_str]
  obtain dept l1 l3 l4 where r: "report_lines now float_str emps =
    Inr (header_lines now emps @ dept @ top_performer_lines float_str emps
         @ ([''SALARY DISTRIBUTION:'', replicate 80 CHR ''-'']
            @ map distribution_line (map (float_bucket_row emps) bucket_labels) @ [[]])
         @ [''OVERALL STATISTICS:'', replicate 80 CHR ''-'', l1, ?m,
            l3, l4, [], replicate 80 CHR ''='', ''End of Report'', replicate 80 CHR ''=''])"
    by blast
  let ?pre = "header_lines now emps @ dept @ top_performer_lines float_str emps
         @ ([''SALARY DISTRIBUTION:'', replicate 80 CHR ''-'']
            @ map distribution_line (map (float_bucket_row emps) bucket_labels) @ [[]])
         @ [''OVERALL STATISTICS:'', replicate 80 CHR ''-'', l1]"
  let ?post = "[l3, l4, [], replicate 80 CHR ''='', ''End of Report'', replicate 80 CHR ''='']"
  have r': "report_lines now float_str emps = Inr (?pre @ [?m] @ ?post)"
    by (simp only: r) simp
  then have "generate_report now float_str emps = Inr (join [newline] (?pre @ [?m] @ ?post))"
    by (simp only: generate_report_def bind_def sum.case)
  moreover have "sorted ?ys" "mset ?ys = mset (map salary emps)" by simp_all
  ultimately show ?thesis using r' by blast
qed

theorem generate_report_median_witness:
  "[Employee ''EMP0001'' ''A'' ''HR'' 90000 ''2024-01-01'' 7,
    Employee ''EMP0002'' ''B'' ''HR'' 50000 ''2024-01-02'' 9,
    Employee ''EMP0003'' ''C'' ''Sales'' 70000 ''2024-01-03'' 8] \<noteq> [] \<and>
   (\<exists>pre post. report_lines ''2026-01-15 10:00:00'' (\<lambda>x. ''7.5'')
       [Employee ''EMP0001'' ''A'' ''HR'' 90000 ''2024-01-01'' 7,
        Employee ''EMP0002'' ''B'' ''HR'' 50000 ''2024-01-02'' 9,
        Employee ''EMP0003'' ''C'' ''Sales'' 70000 ''2024-01-03'' 8]
     = Inr (pre @ [''Median Salary: $70,000.00''] @ post))"
proof -
  let ?es = "[Employee ''EMP0001'' ''A'' ''HR'' 90000 ''2024-01-01'' 7,
    Employee ''EMP0002'' ''B'' ''HR'' 50000 ''2024-01-02'' 9,
    Employee ''EMP0003'' ''C'' ''Sales'' 70000 ''2024-01-03'' 8]"
  have ne: "?es \<noteq> []" by simp
  from generate_report_median [OF ne, of "''2026-01-15 10:00:00''" "\<lambda>x. ''7.5''"]
  obtain ys pre post where s: "sorted ys" and m: "mset ys = mset (map salary ?es)"
    and r: "report_lines ''2026-01-15 10:00:00'' (\<lambda>x. ''7.5'') ?es
             = Inr (pre @ [''Median Salary: $''
                             @ format_float True 2 (ys ! (length ?es div 2))] @ post)"
    by blast
  from m s have "sort (map salary ?es) = ys" by (rule properties_for_sort)
  then have "ys = [50000, 70000, 90000]" by (simp add: Employee_def)
  then have "ys ! (length ?es div 2) = 70000" by simp
  moreover have "format_float True 2 70000 = ''70,000.00''" by code_simp
  ultimately have "''Median Salary: $'' @ format_float True 2 (ys ! (length ?es div 2))
      = ''Median Salary: $70,000.00''" by simp
  with r ne show ?thesis by (intro conjI exI [where x = pre] exI [where x = post]) simp_all
qed

lemma single_percentage: "fl (fl 1 * 100) = 100"
  by code_simp

lemma single_line_parts:
  "format_int_width 3 1 = ''  1''" "format_float_width 5 1 100 = ''100.0''"
  by code_simp+

lemma report_lines_distribution:
  assumes "emps \<noteq> []"
  shows "\<exists>pre post. report_lines now float_str emps
           = Inr (pre @ map distribution_line (map (float_bucket_row emps) bucket_labels)
                  @ post)"
proof -
  let ?lines = "map distribution_line (map (float_bucket_row emps) bucket_labels)"
  from report_lines_eq [OF assms, of now float_str]
  obtain dept l1 l3 l4 where r: "report_lines now float_str emps =
    Inr (header_lines now emps @ dept @ top_performer_lines float_str emps
         @ ([''SALARY DISTRIBUTION:'', replicate 80 CHR ''-''] @ ?lines @ [[]])
         @ [''OVERALL STATISTICS:'', replicate 80 CHR ''-'', l1,
            ''Median Salary: $''
              @ format_float True 2 (sort (map salary emps) ! (length emps div 2)),
            l3, l4, [], replicate 80 CHR ''='', ''End of Report'', replicate 80 CHR ''=''])"
    by blast
  let ?pre = "header_lines now emps @ dept @ top_performer_lines float_str emps
            @ [''SALARY DISTRIBUTION:'', replicate 80 CHR ''-'']"
  let ?post = "[[], ''OVERALL STATISTICS:'', replicate 80 CHR ''-'', l1,
            ''Median Salary: $''
              @ format_float True 2 (sort (map salary emps) ! (length emps div 2)),
            l3, l4, [], replicate 80 CHR ''='', ''End of Report'',
            replicate 80 CHR ''='']"
  have r': "report_lines now float_str emps = Inr (?pre @ ?lines @ ?post)"
    by (simp add: r)
  then show ?thesis by blast
qed

text \<open>
  C9, as amended. For every non-empty employee collection, the Salary Distribution
  section of the report that \<open>generate_report\<close> returns has one line for each of the five
  buckets, in their order. The percentage of a bucket is \<open>count / total * 100\<close> as float
  arithmetic computes it, the division and the multiplication each rounded to a double,
  and the bar at the end of the line has \<open>floor (percentage / 2)\<close> characters for that
  float. For a collection of one employee, the bucket of that employee shows the
  percentage 100.0 and a bar of exactly 50 characters.
\<close>

theorem generate_report_distribution_bars:
  assumes "emps \<noteq> []"
  shows "distribution_rows emps = Inr (map (float_bucket_row emps) bucket_labels) \<and>
         (\<exists>pre post.
            report_lines now float_str emps
              = Inr (pre @ map distribution_line (map (float_bucket_row emps) bucket_labels)
                     @ post) \<and>
            generate_report now float_str emps
              = Inr (join [newline]
                      (pre @ map distribution_line (map (float_bucket_row emps) bucket_labels)
                       @ post))) \<and>
         list_all (\<lambda>l. \<exists>c p bar.
              float_bucket_row emps l = (l, c, p, bar) \<and>
              c = bucket_count emps l \<and>
              p = fmul (fl (of_int c / of_int (int (length emps)))) 100 \<and>
              length bar = nat \<lfloor>p / 2\<rfloor> \<and>
              (\<exists>text. distribution_line (l, c, p, bar) = text @ '' '' @ bar))
           bucket_labels \<and>
         (length emps = 1 \<longrightarrow>
            float_bucket_row emps (salary_bucket (salary (hd emps)))
              = (salary_bucket (salary (hd emps)), 1, 100, replicate 50 full_block) \<and>
            distribution_line (float_bucket_row emps (salary_bucket (salary (hd emps))))
              = format_str_width 12 (salary_bucket (salary (hd emps)))
                @ '':   1 employees (100.0%) '' @ replicate 50 full_block)"
proof (intro conjI impI)
  show "distribution_rows emps = Inr (map (float_bucket_row emps) bucket_labels)"
    using assms by (rule distribution_rows_eq)
next
  let ?lines = "map distribution_line (map (float_bucket_row emps) bucket_labels)"
  from report_lines_distribution [OF assms, of now float_str]
  obtain pre post where r': "report_lines now float_str emps = Inr (pre @ ?lines @ post)"
    by blast
  then have "generate_report now float_str emps = Inr (join [newline] (pre @ ?lines @ post))"
    by (simp only: generate_report_def bind_def sum.case)
  with r' show "\<exists>pre post.
            report_lines now float_str emps = Inr (pre @ ?lines @ post) \<and>
            generate_report now float_str emps = Inr (join [newline] (pre @ ?lines @ post))"
    by blast
next
  have "\<exists>c p bar.
          float_bucket_row emps l = (l, c, p, bar) \<and>
          c = bucket_count emps l \<and>
          p = fmul (fl (of_int c / of_int (int (length emps)))) 100 \<and>
          length bar = nat \<lfloor>p / 2\<rfloor> \<and>
          (\<exists>text. distribution_line (l, c, p, bar) = text @ '' '' @ bar)" for l
    by (simp add: float_bucket_row_def Let_def fmul_def distribution_line_def)
  then show "list_all (\<lambda>l. \<exists>c p bar.
              float_bucket_row emps l = (l, c, p, bar) \<and>
              c = bucket_count emps l \<and>
              p = fmul (fl (of_int c / of_int (int (length emps)))) 100 \<and>
              length bar = nat \<lfloor>p / 2\<rfloor> \<and>
              (\<exists>text. distribution_line (l, c, p, bar) = text @ '' '' @ bar))
           bucket_labels"
    by (simp add: list_all_iff)
next
  assume "length emps = 1"
  then obtain e where e: "emps = [e]" by (cases emps) auto
  show row: "float_bucket_row emps (salary_bucket (salary (hd emps)))
              = (salary_bucket (salary (hd emps)), 1, 100, replicate 50 full_block)"
    by (simp add: e float_bucket_row_def bucket_count_def Let_def single_percentage)
  show "distribution_line (float_bucket_row emps (salary_bucket (salary (hd emps))))
              = format_str_width 12 (salary_bucket (salary (hd emps)))
                @ '':   1 employees (100.0%) '' @ replicate 50 full_block"
    by (simp only: row distribution_line_def prod.case single_line_parts) simp
qed

theorem generate_report_distribution_bars_witness:
  "[Employee ''EMP0001'' ''Fatima Khan'' ''HR'' 120000 ''2024-01-01'' (15 / 2)] \<noteq> [] \<and>
   distribution_rows [Employee ''EMP0001'' ''Fatima Khan'' ''HR'' 120000 ''2024-01-01'' (15 / 2)]
     = Inr [(''0-50k'', 0, 0, []), (''50k-70k'', 0, 0, []), (''70k-90k'', 0, 0, []),
            (''90k-100k'', 0, 0, []), (''100k+'', 1, 100, replicate 50 full_block)] \<and>
   distribution_line (''100k+'', 1, 100, replicate 50 full_block)
     = ''100k+       :   1 employees (100.0%) '' @ replicate 50 full_block"
proof -
  let ?es = "[Employee ''EMP0001'' ''Fatima Khan'' ''HR'' 120000 ''2024-01-01'' (15 / 2)]"
  have ne: "?es \<noteq> []" by simp
  note t = generate_report_distribution_bars [OF ne, of "''2026-01-15 10:00:00''" "\<lambda>x. ''7.5''"]
  have b: "salary_bucket (salary (hd ?es)) = ''100k+''"
    by (simp add: salary_bucket_def Employee_def)
  have zero: "fl (fl 0 * 100) = 0" by code_simp
  have "map (float_bucket_row ?es) bucket_labels
     = [(''0-50k'', 0, 0, []), (''50k-70k'', 0, 0, []), (''70k-90k'', 0, 0, []),
        (''90k-100k'', 0, 0, []), (''100k+'', 1, 100, replicate 50 full_block)]"
    by (simp add: bucket_labels_def float_bucket_row_def bucket_count_def salary_bucket_def
        Employee_def Let_def single_percentage zero)
  with t [THEN conjunct1] have rows: "distribution_rows ?es
     = Inr [(''0-50k'', 0, 0, []), (''50k-70k'', 0, 0, []), (''70k-90k'', 0, 0, []),
            (''90k-100k'', 0, 0, []), (''100k+'', 1, 100, replicate 50 full_block)]"
    by (simp only:)
  have "length ?es = 1" by simp
  with t [THEN conjunct2, THEN conjunct2, THEN conjunct2]
  have "distribution_line (float_bucket_row ?es (salary_bucket (salary (hd ?es))))
      = format_str_width 12 (salary_bucket (salary (hd ?es)))
        @ '':   1 employees (100.0%) '' @ replicate 50 full_block"
    and "float_bucket_row ?es (salary_bucket (salary (hd ?es)))
      = (salary_bucket (salary (hd ?es)), 1, 100, replicate 50 full_block)"
    by blast+
  then have "distribution_line (''100k+'', 1, 100, replicate 50 full_block)
      = format_str_width 12 ''100k+'' @ '':   1 employees (100.0%) '' @ replicate 50 full_block"
    by (simp only: b)
  moreover have "format_str_width 12 ''100k+'' = ''100k+       ''" by code_simp
  ultimately have "distribution_line (''100k+'', 1, 100, replicate 50 full_block)
     = ''100k+       :   1 employees (100.0%) '' @ replicate 50 full_block"
    by (simp only: append_Cons append_Nil)
  with ne rows show ?thesis by blast
qed

lemma float_row_of_58_percent:
  "float_bucket_row
     (replicate 58 (Employee ''EMP0001'' ''A'' ''HR'' 40000 ''2024-01-01'' 7)
      @ replicate 42 (Employee ''EMP0002'' ''B'' ''HR'' 120000 ''2024-01-01'' 7))
     ''0-50k''
   = (''0-50k'', 58, 58 - 1 / 2 ^ 47, replicate 28 full_block)"
proof -
  let ?es = "replicate 58 (Employee ''EMP0001'' ''A'' ''HR'' 40000 ''2024-01-01'' 7)
               @ replicate 42 (Employee ''EMP0002'' ''B'' ''HR'' 120000 ''2024-01-01'' 7)"
  have c: "bucket_count ?es ''0-50k'' = 58"
    by (simp add: bucket_count_def salary_bucket_def Employee_def)
  have l: "int (length ?es) = 100" by simp
  have p: "fl (fl (of_int 58 / of_int 100) * 100) = 58 - 1 / 2 ^ 47" by code_simp
  have f: "nat \<lfloor>(58 - 1 / 2 ^ 47 :: rat) / 2\<rfloor> = 28" by code_simp
  show ?thesis by (simp only: float_bucket_row_def Let_def c l p f)
qed

lemma float_row_of_42_percent:
  "float_bucket_row
     (replicate 58 (Employee ''EMP0001'' ''A'' ''HR'' 40000 ''2024-01-01'' 7)
      @ replicate 42 (Employee ''EMP0002'' ''B'' ''HR'' 120000 ''2024-01-01'' 7))
     ''100k+''
   = (''100k+'', 42, 42, replicate 21 full_block)"
proof -
  let ?es = "replicate 58 (Employee ''EMP0001'' ''A'' ''HR'' 40000 ''2024-01-01'' 7)
               @ replicate 42 (Employee ''EMP0002'' ''B'' ''HR'' 120000 ''2024-01-01'' 7)"
  have c: "bucket_count ?es ''100k+'' = 42"
    by (simp add: bucket_count_def salary_bucket_def Employee_def)
  have l: "int (length ?es) = 100" by simp
  have p: "fl (fl (of_int 42 / of_int 100) * 100) = 42" by code_simp
  have f: "nat \<lfloor>(42 :: rat) / 2\<rfloor> = 21" by code_simp
  show ?thesis by (simp only: float_bucket_row_def Let_def c l p f)
qed

lemma float_row_of_0_percent:
  assumes "l = ''50k-70k'' \<or> l = ''70k-90k'' \<or> l = ''90k-100k''"
  shows "float_bucket_row
     (replicate 58 (Employee ''EMP0001'' ''A'' ''HR'' 40000 ''2024-01-01'' 7)
      @ replicate 42 (Employee ''EMP0002'' ''B'' ''HR'' 120000 ''2024-01-01'' 7)) l
   = (l, 0, 0, [])"
proof -
  let ?es = "replicate 58 (Employee ''EMP0001'' ''A'' ''HR'' 40000 ''2024-01-01'' 7)
               @ replicate 42 (Employee ''EMP0002'' ''B'' ''HR'' 120000 ''2024-01-01'' 7)"
  have c: "bucket_count ?es l = 0"
    using assms by (auto simp add: bucket_count_def salary_bucket_def Employee_def)
  have p: "fl (fl (of_int 0 / of_int (int (length ?es))) * 100) = 0"
    by (simp add: fl_def)
  have f: "replicate (nat \<lfloor>(0 :: rat) / 2\<rfloor>) full_block = []" by simp
  show ?thesis by (simp only: float_bucket_row_def Let_def c p f)
qed

text \<open>
  C9 as stated, with \<open>count / total * 100\<close> and \<open>floor (percentage / 2)\<close> taken as
  numbers, fails on the code. For 58 employees of 100 in a bucket the percentage that the
  code computes is the double just below 58: the line shows 58.0 and a bar of 28
  characters, where the floor of 58 / 2 is 29.
\<close>

theorem generate_report_distribution_bars_exact_counterexample:
  "distribution_rows
     (replicate 58 (Employee ''EMP0001'' ''A'' ''HR'' 40000 ''2024-01-01'' 7)
      @ replicate 42 (Employee ''EMP0002'' ''B'' ''HR'' 120000 ''2024-01-01'' 7))
   = Inr [(''0-50k'', 58, 58 - 1 / 2 ^ 47, replicate 28 full_block),
          (''50k-70k'', 0, 0, []), (''70k-90k'', 0, 0, []), (''90k-100k'', 0, 0, []),
          (''100k+'', 42, 42, replicate 21 full_block)] \<and>
   distribution_line (''0-50k'', 58, 58 - 1 / 2 ^ 47, replicate 28 full_block)
   = ''0-50k       :  58 employees ( 58.0%) '' @ replicate 28 full_block \<and>
   exact_bucket_row
     (replicate 58 (Employee ''EMP0001'' ''A'' ''HR'' 40000 ''2024-01-01'' 7)
      @ replicate 42 (Employee ''EMP0002'' ''B'' ''HR'' 120000 ''2024-01-01'' 7))
     ''0-50k''
   = (''0-50k'', 58, 58, replicate 29 full_block) \<and>
   (case report_lines ''2026-01-15 10:00:00'' (\<lambda>x. ''7.0'')
           (replicate 58 (Employee ''EMP0001'' ''A'' ''HR'' 40000 ''2024-01-01'' 7)
            @ replicate 42 (Employee ''EMP0002'' ''B'' ''HR'' 120000 ''2024-01-01'' 7)) of
      Inl e \<Rightarrow> False
    | Inr ls \<Rightarrow>
        distribution_line (''0-50k'', 58, 58 - 1 / 2 ^ 47, replicate 28 full_block) \<in> set ls)"
proof (intro conjI)
  let ?es = "replicate 58 (Employee ''EMP0001'' ''A'' ''HR'' 40000 ''2024-01-01'' 7)
               @ replicate 42 (Employee ''EMP0002'' ''B'' ''HR'' 120000 ''2024-01-01'' 7)"
  have ne: "?es \<noteq> []" by simp
  from report_lines_distribution [OF ne, of "''2026-01-15 10:00:00''" "\<lambda>x. ''7.0''"]
  obtain pre post where rl: "report_lines ''2026-01-15 10:00:00'' (\<lambda>x. ''7.0'') ?es
      = Inr (pre @ map distribution_line (map (float_bucket_row ?es) bucket_labels) @ post)"
    by blast
  define ls where "ls = pre @ map distribution_line (map (float_bucket_row ?es) bucket_labels) @ post"
  have ls: "report_lines ''2026-01-15 10:00:00'' (\<lambda>x. ''7.0'') ?es = Inr ls"
    by (simp only: rl ls_def)
  have sub: "set (map distribution_line (map (float_bucket_row ?es) bucket_labels)) \<subseteq> set ls"
    unfolding ls_def by (simp only: set_append) blast
  have "distribution_line (float_bucket_row ?es ''0-50k'')
          \<in> set (map distribution_line (map (float_bucket_row ?es) bucket_labels))"
    by (simp add: bucket_labels_def)
  with sub have "distribution_line (''0-50k'', 58, 58 - 1 / 2 ^ 47, replicate 28 full_block)
      \<in> set ls"
    by (auto simp only: float_row_of_58_percent)
  then show "case report_lines ''2026-01-15 10:00:00'' (\<lambda>x. ''7.0'') ?es of
      Inl e \<Rightarrow> False
    | Inr ls \<Rightarrow>
        distribution_line (''0-50k'', 58, 58 - 1 / 2 ^ 47, replicate 28 full_block) \<in> set ls"
    by (simp only: ls sum.case)
  have "map (float_bucket_row ?es) bucket_labels
      = [(''0-50k'', 58, 58 - 1 / 2 ^ 47, replicate 28 full_block),
         (''50k-70k'', 0, 0, []), (''70k-90k'', 0, 0, []), (''90k-100k'', 0, 0, []),
         (''100k+'', 42, 42, replicate 21 full_block)]"
    by (simp only: bucket_labels_def list.map float_row_of_58_percent
        float_row_of_42_percent
        float_row_of_0_percent [of "''50k-70k''", simplified]
        float_row_of_0_percent [of "''70k-90k''", simplified]
        float_row_of_0_percent [of "''90k-100k''", simplified])
  then show "distribution_rows ?es
      = Inr [(''0-50k'', 58, 58 - 1 / 2 ^ 47, replicate 28 full_block),
             (''50k-70k'', 0, 0, []), (''70k-90k'', 0, 0, []), (''90k-100k'', 0, 0, []),
             (''100k+'', 42, 42, replicate 21 full_block)]"
    by (simp only: distribution_rows_eq [OF ne])
  have w: "format_str_width 12 ''0-50k'' = ''0-50k       ''"
    "format_int_width 3 58 = '' 58''"
    "format_float_width 5 1 (58 - 1 / 2 ^ 47) = '' 58.0''"
    by code_simp+
  show "distribution_line (''0-50k'', 58, 58 - 1 / 2 ^ 47, replicate 28 full_block)
      = ''0-50k       :  58 employees ( 58.0%) '' @ replicate 28 full_block"
    by (simp only: distribution_line_def prod.case w append_Cons append_Nil)
  have c: "bucket_count ?es ''0-50k'' = 58"
    by (simp add: bucket_count_def salary_bucket_def Employee_def)
  have l: "int (length ?es) = 100" by simp
  have p: "(of_int 58 / of_int 100 * 100 :: rat) = 58" by simp
  have f: "nat \<lfloor>(58 :: rat) / 2\<rfloor> = 29" by simp
  show "exact_bucket_row ?es ''0-50k'' = (''0-50k'', 58, 58, replicate 29 full_block)"
    by (simp only: exact_bucket_row_def Let_def c l p f)
qed

subsection \<open>Saving and loading\<close>

text \<open>
  C8 fails on the code. \<open>save_to_csv\<close> writes a carriage return inside a name as it is,
  in a quoted field; \<open>load_from_csv\<close> opens the file without \<open>newline=''\<close>, so the
  carriage return is read as a line feed and the name that comes back is another string.
  The two conversions of the numbers, \<open>str\<close> and \<open>float\<close>, are given here on the two
  numbers of the record.
\<close>

theorem csv_round_trip_carriage_return:
  "load_from_csv
     (\<lambda>s. if s = ''50000.0'' then Inr 50000 else if s = ''7.5'' then Inr (15 / 2)
          else Inl ValueError)
     (save_to_csv (\<lambda>x. if x = 50000 then ''50000.0'' else ''7.5'')
        [Employee ''EMP0001'' [CHR ''A'', carriage_return, CHR ''B''] ''HR'' 50000
           ''2024-01-01'' (15 / 2)])
   = Inr [Employee ''EMP0001'' [CHR ''A'', newline, CHR ''B''] ''HR'' 50000
            ''2024-01-01'' (15 / 2)] \<and>
   [CHR ''A'', newline, CHR ''B''] \<noteq> [CHR ''A'', carriage_return, CHR ''B'']"
  by code_simp

end
